theory Spec2Isabelle
  imports Main "HOL-Library.Sublist" "HOL-Library.Word"
begin

section \<open>Text, values and dictionaries\<close>

text \<open>
  A Python \<open>str\<close> is modelled as a \<open>string\<close>: a list of characters with code points
  0 to 255, which is the range the last fallback encoding of the loader (latin-1) produces.
  A value that may be \<open>None\<close> is a \<open>string option\<close>. A \<open>dict\<close> is an association list
  with the behaviour of Python's insertion-ordered dictionaries: storing under a key that is
  present replaces the value in place, storing under a new key appends.
\<close>

type_synonym pystr = "string option"

type_synonym ('k, 'v) pydict = "('k \<times> 'v) list"

fun dict_set :: "'k \<Rightarrow> 'v \<Rightarrow> ('k, 'v) pydict \<Rightarrow> ('k, 'v) pydict" where
  "dict_set k v [] = [(k, v)]"
| "dict_set k v ((k', v') # d) = (if k = k' then (k, v) # d else (k', v') # dict_set k v d)"

definition dict_get :: "('k, 'v) pydict \<Rightarrow> 'k \<Rightarrow> 'v \<Rightarrow> 'v" where
  \<comment> \<open>\<open>d.get(k, dflt)\<close>\<close>
  "dict_get d k dflt = (case map_of d k of None \<Rightarrow> dflt | Some v \<Rightarrow> v)"

definition dict_contains :: "('k, 'v) pydict \<Rightarrow> 'k \<Rightarrow> bool" where
  \<comment> \<open>\<open>k in d\<close>\<close>
  "dict_contains d k = (map_of d k \<noteq> None)"

definition dict_fromkeys :: "'k list \<Rightarrow> ('k, unit) pydict" where
  \<comment> \<open>\<open>dict.fromkeys(keys)\<close>: every key stored in turn, each with the same value (here \<open>()\<close>)\<close>
  "dict_fromkeys keys = fold (\<lambda>k d. dict_set k () d) keys []"

definition isspace :: "char \<Rightarrow> bool" where
  \<comment> \<open>the characters \<open>str.strip()\<close> removes, among code points 0 to 255\<close>
  "isspace c = (let n = (of_char c :: nat) in
     (9 \<le> n \<and> n \<le> 13) \<or> (28 \<le> n \<and> n \<le> 32) \<or> n = 133 \<or> n = 160)"

definition strip :: "string \<Rightarrow> string" where
  "strip s = rev (dropWhile isspace (rev (dropWhile isspace s)))"

definition lower_char :: "char \<Rightarrow> char" where
  \<comment> \<open>\<open>str.lower()\<close> on one character, among code points 0 to 255\<close>
  "lower_char c = (let n = (of_char c :: nat) in
     if (65 \<le> n \<and> n \<le> 90) \<or> (192 \<le> n \<and> n \<le> 222 \<and> n \<noteq> 215) then char_of (n + 32) else c)"

definition lower :: "string \<Rightarrow> string" where
  "lower s = map lower_char s"

definition truthy :: "string option \<Rightarrow> string option" where
  \<comment> \<open>the value tested by \<open>if v:\<close>, kept when it is neither \<open>None\<close> nor the empty string\<close>
  "truthy v = (case v of None \<Rightarrow> None | Some s \<Rightarrow> if s = [] then None else Some s)"

datatype encoding = Utf_8_sig | Cp1252 | Latin_1

text \<open>
  The exceptions the program can end with: \<open>ValueError\<close> with its message (the spec's
  FormatError), \<open>UnicodeDecodeError\<close> with the encoding of the failure it was built from
  and its reason (the spec's DecodeError), the \<open>csv.Error\<close> of the reader, and the
  \<open>TypeError\<close> of \<open>str.join\<close> on an item that is not a string.
\<close>

datatype error =
    ValueError string
  | UnicodeDecodeError "encoding option" string
  | CsvError
  | TypeError

section \<open>Column inference\<close>

definition find_name_column :: "string list \<Rightarrow> string \<Rightarrow> error + string" where
  "find_name_column fieldnames file_label =
     (case truthy (List.find (\<lambda>name. name = ''Name'') fieldnames) of
        Some exact_match \<Rightarrow> Inr exact_match
      | None \<Rightarrow>
         (case truthy (List.find (\<lambda>name. sublist ''name'' (lower name)) fieldnames) of
            Some name_like \<Rightarrow> Inr name_like
          | None \<Rightarrow> Inl (ValueError (''Could not find a name column in '' @ file_label @ ''.''))))"

text \<open>
  \<open>float(value)\<close> is the interpreter's parser of floating-point literals. It is not part of
  the program, so the functions that call it take it as the parameter \<open>float_parses\<close>:
  whether \<open>float\<close> accepts the text.
\<close>

definition is_numeric :: "(string \<Rightarrow> bool) \<Rightarrow> pystr \<Rightarrow> bool" where
  "is_numeric float_parses value =
     (case value of
        None \<Rightarrow> False
      | Some v \<Rightarrow> (let v' = strip v in if v' = '''' then False else float_parses v'))"

type_synonym row = "(string, pystr) pydict"

definition non_blank :: "pystr \<Rightarrow> bool" where
  \<comment> \<open>\<open>value is not None and value.strip() != ""\<close>\<close>
  "non_blank value = (case value of None \<Rightarrow> False | Some v \<Rightarrow> strip v \<noteq> '''')"

definition numeric_column :: "(string \<Rightarrow> bool) \<Rightarrow> row list \<Rightarrow> string \<Rightarrow> bool" where
  \<comment> \<open>the test of the loop body of \<open>find_points_column\<close>\<close>
  "numeric_column float_parses rows column_name =
     (let values = map (\<lambda>row. dict_get row column_name (Some '''')) rows;
          non_blank_values = filter non_blank values
      in non_blank_values \<noteq> [] \<and> list_all (is_numeric float_parses) non_blank_values)"

fun first_numeric_column :: "(string \<Rightarrow> bool) \<Rightarrow> string list \<Rightarrow> row list \<Rightarrow> string option" where
  "first_numeric_column float_parses [] rows = None"
| "first_numeric_column float_parses (column_name # fieldnames) rows =
     (if numeric_column float_parses rows column_name then Some column_name
      else first_numeric_column float_parses fieldnames rows)"

definition find_points_column :: "(string \<Rightarrow> bool) \<Rightarrow> string list \<Rightarrow> row list \<Rightarrow> error + string" where
  "find_points_column float_parses fieldnames rows =
     (case truthy (List.find (\<lambda>name. name = ''Points'') fieldnames) of
        Some exact_match \<Rightarrow> Inr exact_match
      | None \<Rightarrow>
         (case first_numeric_column float_parses fieldnames rows of
            Some column_name \<Rightarrow> Inr column_name
          | None \<Rightarrow> Inl (ValueError ''Could not find a points column in AllValues.csv.'')))"

text \<open>
  The test of a points column as the specification words it, to be compared with
  \<open>numeric_column\<close>: a cell is the value of the row under the column, the empty string when
  the row has no such key; a cell is blank when it is absent (\<open>None\<close>) or only whitespace;
  a column qualifies when it has a cell that is not blank and \<open>float\<close> accepts every cell
  that is not blank, surrounding whitespace apart.
\<close>

definition blank_cell :: "pystr \<Rightarrow> bool" where
  "blank_cell v = (case v of None \<Rightarrow> True | Some s \<Rightarrow> strip s = '''')"

definition parses_as_float :: "(string \<Rightarrow> bool) \<Rightarrow> pystr \<Rightarrow> bool" where
  "parses_as_float float_parses v = (case v of None \<Rightarrow> False | Some s \<Rightarrow> float_parses (strip s))"

definition spec_numeric_column :: "(string \<Rightarrow> bool) \<Rightarrow> row list \<Rightarrow> string \<Rightarrow> bool" where
  "spec_numeric_column float_parses rows c =
     ((\<exists>r \<in> set rows. \<not> blank_cell (dict_get r c (Some '''')))
      \<and> (\<forall>r \<in> set rows. \<not> blank_cell (dict_get r c (Some ''''))
            \<longrightarrow> parses_as_float float_parses (dict_get r c (Some ''''))))"

definition digits_only :: "string \<Rightarrow> bool" where
  \<comment> \<open>a stand-in for \<open>float\<close> in examples: it agrees with \<open>float\<close> on texts made of ASCII
     letters and digits other than \<open>inf\<close>, \<open>infinity\<close> and \<open>nan\<close>\<close>
  "digits_only s = (s \<noteq> [] \<and> list_all (\<lambda>c. 48 \<le> (of_char c :: nat) \<and> (of_char c :: nat) \<le> 57) s)"

section \<open>The loader\<close>

text \<open>
  Opening a file under an encoding and iterating \<open>csv.reader\<close> over it belong to the
  interpreter. What they hand to the program is a sequence of records (lists of cells), ended
  by the end of the file or by an exception. The file is decoded while it is read, so a
  \<open>UnicodeDecodeError\<close> can be raised after some records have been delivered. The
  interpreter's part is the parameter \<open>lib\<close>: the parser of floating-point literals, the
  records of a decoded text, and the records read from the bytes of a file under the two
  encodings that can reject bytes. Under latin-1 every byte is the character of the same
  code point. A file is given by its bytes: failures of the file system (an input that is
  missing or cannot be read, an output that cannot be written) are outside the model.
\<close>

type_synonym byte = "8 word"

datatype csv_end = EndOfFile | CsvErrorRaised

datatype read_end = Reader csv_end | DecodeErrorRaised

record pylib =
  float_parses :: "string \<Rightarrow> bool"
  csv_records :: "string \<Rightarrow> string list list \<times> csv_end"
  read_utf_8_sig :: "byte list \<Rightarrow> string list list \<times> read_end"
  read_cp1252 :: "byte list \<Rightarrow> string list list \<times> read_end"

definition latin_1_decode :: "byte list \<Rightarrow> string" where
  "latin_1_decode content = map (\<lambda>b. char_of (unat b)) content"

definition read_records :: "pylib \<Rightarrow> encoding \<Rightarrow> byte list \<Rightarrow> string list list \<times> read_end" where
  "read_records lib encoding content =
     (case encoding of
        Utf_8_sig \<Rightarrow> read_utf_8_sig lib content
      | Cp1252 \<Rightarrow> read_cp1252 lib content
      | Latin_1 \<Rightarrow> (case csv_records lib (latin_1_decode content) of (records, e) \<Rightarrow> (records, Reader e)))"

text \<open>
  \<open>csv.DictReader\<close>: the first record is \<open>fieldnames\<close>; every later record that is not
  empty becomes a dictionary from the field names to its cells, with the cells beyond the
  field names collected under the key \<open>None\<close> (the second component here) and the field
  names beyond the cells mapped to \<open>None\<close>.
\<close>

type_synonym dictreader_row = "(string, pystr) pydict \<times> string list option"

definition DictReader_row :: "string list \<Rightarrow> string list \<Rightarrow> dictreader_row" where
  "DictReader_row fieldnames r =
     (let d = fold (\<lambda>(k, v) d. dict_set k (Some v) d) (zip fieldnames r) [];
          lf = length fieldnames;
          lr = length r
      in if lf < lr then (d, Some (drop lf r))
         else if lf > lr then (fold (\<lambda>key d. dict_set key None d) (drop lr fieldnames) d, None)
         else (d, None))"

definition DictReader_rows :: "string list \<Rightarrow> string list list \<Rightarrow> dictreader_row list" where
  "DictReader_rows fieldnames records = map (DictReader_row fieldnames) (filter (\<lambda>r. r \<noteq> []) records)"

definition cleaned_row :: "dictreader_row \<Rightarrow> row" where
  \<comment> \<open>the body of \<open>for row in reader\<close>; the entry under the key \<open>None\<close> is skipped\<close>
  "cleaned_row dr =
     fold (\<lambda>(key, value) cleaned. dict_set (strip key) (map_option strip value) cleaned) (fst dr) []"

type_synonym table = "string list \<times> row list"

datatype 'a attempt = Returns 'a | Raises error | Caught

definition read_table :: "string \<Rightarrow> string list list \<times> read_end \<Rightarrow> table attempt" where
  \<comment> \<open>the body of \<open>try\<close> in \<open>load_csv\<close>, on what one encoding delivers\<close>
  "read_table path rd =
     (case rd of (records, e) \<Rightarrow>
       (case records of
          [] \<Rightarrow>
            (case e of
               DecodeErrorRaised \<Rightarrow> Caught
             | Reader CsvErrorRaised \<Rightarrow> Raises CsvError
             | Reader EndOfFile \<Rightarrow> Raises (ValueError (path @ '' has no header row.'')))
        | header # body \<Rightarrow>
            if header = [] then Raises (ValueError (path @ '' has no header row.''))
            else
              (case e of
                 DecodeErrorRaised \<Rightarrow> Caught
               | Reader CsvErrorRaised \<Rightarrow> Raises CsvError
               | Reader EndOfFile \<Rightarrow>
                   Returns (map strip header, map cleaned_row (DictReader_rows header body)))))"

fun load_loop :: "pylib \<Rightarrow> string \<Rightarrow> byte list \<Rightarrow> encoding list \<Rightarrow> encoding option \<Rightarrow> error + table" where
  "load_loop lib path content [] last_error =
     Inl (UnicodeDecodeError last_error (''Unable to decode '' @ path @ '' using attempted encodings''))"
| "load_loop lib path content (encoding # encodings) last_error =
     (case read_table path (read_records lib encoding content) of
        Returns t \<Rightarrow> Inr t
      | Raises e \<Rightarrow> Inl e
      | Caught \<Rightarrow> load_loop lib path content encodings (Some encoding))"

definition load_csv :: "pylib \<Rightarrow> string \<Rightarrow> byte list \<Rightarrow> error + table" where
  "load_csv lib path content = load_loop lib path content [Utf_8_sig, Cp1252, Latin_1] None"

text \<open>
  Two notions of the specification about what the loader is given and returns: a reading
  has no header row when the reader reports no field names (it is exhausted before a first
  record, or its first record is empty, as for a blank first line); a text is trimmed when
  it neither starts nor ends with whitespace.
\<close>

definition no_header :: "string list list \<times> read_end \<Rightarrow> bool" where
  "no_header rd = (case fst rd of [] \<Rightarrow> snd rd = Reader EndOfFile | header # body \<Rightarrow> header = [])"

definition trimmed :: "string \<Rightarrow> bool" where
  "trimmed s = (s = [] \<or> (\<not> isspace (hd s) \<and> \<not> isspace (last s)))"

text \<open>
  An attempt under one encoding is abandoned for the next encoding when decoding fails
  before the reader has reported field names that are missing.
\<close>

definition undecodable :: "string list list \<times> read_end \<Rightarrow> bool" where
  "undecodable rd = (snd rd = DecodeErrorRaised \<and> \<not> no_header rd)"

text \<open>
  An interpreter for the examples. It agrees with CPython on files smaller than one read
  buffer, without quote characters or carriage returns, whose bytes are ASCII bytes,
  possibly after the byte-order mark \<open>EF BB BF\<close> or together with bytes that occur in no
  UTF-8 text (such as \<open>FF\<close>) and are not below \<open>A0\<close>. The lines of such a file end at the
  newline character, a blank line is the empty record and any other line is split at its
  commas. Under utf-8-sig the byte-order mark is dropped and a byte that is not ASCII is a
  decoding error; under cp1252 and latin-1 every such byte is the character of its code
  point.
\<close>

definition bytes_of :: "string \<Rightarrow> byte list" where
  "bytes_of s = map (\<lambda>c. word_of_nat (of_char c)) s"

fun split_on :: "char \<Rightarrow> string \<Rightarrow> string list" where
  "split_on sep [] = [[]]"
| "split_on sep (c # cs) =
     (if c = sep then [] # split_on sep cs
      else (case split_on sep cs of [] \<Rightarrow> [[c]] | w # ws \<Rightarrow> (c # w) # ws))"

definition plain_csv_records :: "string \<Rightarrow> string list list" where
  "plain_csv_records text_in =
     (let ls = split_on CHR 0x0A text_in;
          lines = (if last ls = [] then butlast ls else ls)
      in map (\<lambda>l. if l = [] then [] else split_on CHR '','' l) lines)"

definition ascii_read :: "byte list \<Rightarrow> string list list \<times> read_end" where
  "ascii_read content =
     (if list_all (\<lambda>b. b < 128) content then (plain_csv_records (latin_1_decode content), Reader EndOfFile)
      else ([], DecodeErrorRaised))"

definition utf_8_sig_read :: "byte list \<Rightarrow> string list list \<times> read_end" where
  "utf_8_sig_read content =
     ascii_read (if take 3 content = [0xEF, 0xBB, 0xBF] then drop 3 content else content)"

definition cp1252_read :: "byte list \<Rightarrow> string list list \<times> read_end" where
  "cp1252_read content =
     (if list_all (\<lambda>b. b < 0x80 \<or> 0xA0 \<le> b) content
      then (plain_csv_records (latin_1_decode content), Reader EndOfFile)
      else ([], DecodeErrorRaised))"

definition ascii_lib :: pylib where
  "ascii_lib = \<lparr>float_parses = digits_only,
                csv_records = (\<lambda>t. (plain_csv_records t, EndOfFile)),
                read_utf_8_sig = utf_8_sig_read,
                read_cp1252 = cp1252_read\<rparr>"

section \<open>The join and the report\<close>

definition ALL_VALUES_PATH :: string where
  "ALL_VALUES_PATH = ''AllValues.csv''"

definition AVAILABLE_PATH :: string where
  "AVAILABLE_PATH = ''Available.csv''"

definition OUTPUT_PATH :: string where
  "OUTPUT_PATH = ''AvailableWithPoints.csv''"

record joined =
  Name :: pystr
  Points :: pystr

type_synonym index = "(pystr, pystr) pydict"

fun index_loop :: "string \<Rightarrow> string \<Rightarrow> row list \<Rightarrow> index \<times> pystr list \<Rightarrow> index \<times> pystr list" where
  "index_loop all_name_column points_column [] st = st"
| "index_loop all_name_column points_column (row # all_rows) (points_by_name, duplicate_names) =
     (let name = dict_get row all_name_column (Some '''') in
      if dict_contains points_by_name name
      then index_loop all_name_column points_column all_rows (points_by_name, duplicate_names @ [name])
      else index_loop all_name_column points_column all_rows
             (dict_set name (dict_get row points_column (Some '''')) points_by_name, duplicate_names))"

fun join_loop :: "index \<Rightarrow> string \<Rightarrow> row list \<Rightarrow> pystr list \<times> joined list \<Rightarrow> pystr list \<times> joined list" where
  "join_loop points_by_name available_name_column [] st = st"
| "join_loop points_by_name available_name_column (row # available_rows) (missing_names, output_rows) =
     (let name = dict_get row available_name_column (Some '''');
          points = dict_get points_by_name name (Some '''')
      in join_loop points_by_name available_name_column available_rows
           (if points = Some '''' then missing_names @ [name] else missing_names,
            output_rows @ [\<lparr>Name = name, Points = points\<rparr>]))"

definition unique :: "'a list \<Rightarrow> 'a list" where
  \<comment> \<open>\<open>list(dict.fromkeys(xs))\<close>\<close>
  "unique xs = map fst (dict_fromkeys xs)"

text \<open>
  What a run does to the world, in order: the output file written with its header and rows,
  a warning line printed with its prefix and items, the closing line printed with the path
  and the number of rows.
\<close>

datatype event =
    Written string "string list" "joined list"
  | Warned string "string list"
  | Wrote string nat

definition warn_list :: "string \<Rightarrow> pystr list \<Rightarrow> error + event list" where
  \<comment> \<open>\<open>', '.join(items)\<close> raises \<open>TypeError\<close> on an item that is \<open>None\<close>\<close>
  "warn_list prefix_text values =
     (let items = values in
      if items \<noteq> [] then (case those items of None \<Rightarrow> Inl TypeError | Some strs \<Rightarrow> Inr [Warned prefix_text strs])
      else Inr [])"

definition main :: "pylib \<Rightarrow> byte list \<Rightarrow> byte list \<Rightarrow> event list \<times> error option" where
  "main lib all_content available_content =
     (case load_csv lib ALL_VALUES_PATH all_content of
        Inl e \<Rightarrow> ([], Some e)
      | Inr (all_fields, all_rows) \<Rightarrow>
     (case load_csv lib AVAILABLE_PATH available_content of
        Inl e \<Rightarrow> ([], Some e)
      | Inr (available_fields, available_rows) \<Rightarrow>
     (case find_name_column all_fields ALL_VALUES_PATH of
        Inl e \<Rightarrow> ([], Some e)
      | Inr all_name_column \<Rightarrow>
     (case find_name_column available_fields AVAILABLE_PATH of
        Inl e \<Rightarrow> ([], Some e)
      | Inr available_name_column \<Rightarrow>
     (case find_points_column (float_parses lib) all_fields all_rows of
        Inl e \<Rightarrow> ([], Some e)
      | Inr points_column \<Rightarrow>
     (case index_loop all_name_column points_column all_rows ([], []) of
        (points_by_name, duplicate_names) \<Rightarrow>
     (case join_loop points_by_name available_name_column available_rows ([], []) of
        (missing_names, output_rows) \<Rightarrow>
     (let written = [Written OUTPUT_PATH [''Name'', ''Points''] output_rows];
          unique_duplicates = unique duplicate_names;
          unique_missing = unique missing_names
      in
     (case warn_list ''Duplicate names in AllValues.csv (using first occurrence)'' unique_duplicates of
        Inl e \<Rightarrow> (written, Some e)
      | Inr warned_duplicates \<Rightarrow>
     (case warn_list ''Names from Available.csv not found in AllValues.csv'' unique_missing of
        Inl e \<Rightarrow> (written @ warned_duplicates, Some e)
      | Inr warned_missing \<Rightarrow>
          (written @ warned_duplicates @ warned_missing @ [Wrote OUTPUT_PATH (length output_rows)],
           None)))))))))))"

text \<open>
  Two notions of the specification, to be compared with the loops of \<open>main\<close>: the repeat
  occurrences of a list (every element that occurred at an earlier position, in order), and
  a list reduced to its first occurrences, in first-seen order.
\<close>

definition repeat_occurrences :: "'a list \<Rightarrow> 'a list" where
  "repeat_occurrences xs = map (\<lambda>i. xs ! i) (filter (\<lambda>i. xs ! i \<in> set (take i xs)) [0..<length xs])"

primrec first_seen :: "'a list \<Rightarrow> 'a list" where
  "first_seen [] = []"
| "first_seen (x # xs) = x # removeAll x (first_seen xs)"

fun repeats_from :: "'a set \<Rightarrow> 'a list \<Rightarrow> 'a list" where
  \<comment> \<open>the repeat occurrences of a list, the elements of \<open>S\<close> counting as seen before\<close>
  "repeats_from S [] = []"
| "repeats_from S (x # xs) = (if x \<in> S then x # repeats_from S xs else repeats_from (insert x S) xs)"

section \<open>Properties of the name-column inference\<close>

lemma find_first:
  "List.find P xs = Some x \<longleftrightarrow> (\<exists>pre suf. xs = pre @ x # suf \<and> P x \<and> (\<forall>y \<in> set pre. \<not> P y))"
proof (induction xs)
  case Nil
  then show ?case by simp
next
  case (Cons a xs)
  show ?case
  proof (cases "P a")
    case True
    have "(\<exists>pre suf. a # xs = pre @ x # suf \<and> P x \<and> (\<forall>y \<in> set pre. \<not> P y)) \<longleftrightarrow> x = a"
    proof
      assume "\<exists>pre suf. a # xs = pre @ x # suf \<and> P x \<and> (\<forall>y \<in> set pre. \<not> P y)"
      then obtain pre suf where h: "a # xs = pre @ x # suf" "\<forall>y \<in> set pre. \<not> P y" by blast
      show "x = a"
      proof (cases pre)
        case Nil
        with h show ?thesis by simp
      next
        case (Cons b pre')
        with h True show ?thesis by auto
      qed
    next
      assume "x = a"
      with True have "a # xs = [] @ x # xs \<and> P x \<and> (\<forall>y \<in> set []. \<not> P y)" by simp
      then show "\<exists>pre suf. a # xs = pre @ x # suf \<and> P x \<and> (\<forall>y \<in> set pre. \<not> P y)" by blast
    qed
    with True show ?thesis by auto
  next
    case False
    have "(\<exists>pre suf. a # xs = pre @ x # suf \<and> P x \<and> (\<forall>y \<in> set pre. \<not> P y))
          \<longleftrightarrow> (\<exists>pre suf. xs = pre @ x # suf \<and> P x \<and> (\<forall>y \<in> set pre. \<not> P y))"
    proof
      assume "\<exists>pre suf. a # xs = pre @ x # suf \<and> P x \<and> (\<forall>y \<in> set pre. \<not> P y)"
      then obtain pre suf where h: "a # xs = pre @ x # suf" "P x" "\<forall>y \<in> set pre. \<not> P y" by blast
      show "\<exists>pre suf. xs = pre @ x # suf \<and> P x \<and> (\<forall>y \<in> set pre. \<not> P y)"
      proof (cases pre)
        case Nil
        with h False show ?thesis by simp
      next
        case (Cons b pre')
        with h have "xs = pre' @ x # suf \<and> P x \<and> (\<forall>y \<in> set pre'. \<not> P y)" by simp
        then show ?thesis by blast
      qed
    next
      assume "\<exists>pre suf. xs = pre @ x # suf \<and> P x \<and> (\<forall>y \<in> set pre. \<not> P y)"
      then obtain pre suf where h: "xs = pre @ x # suf" "P x" "\<forall>y \<in> set pre. \<not> P y" by blast
      with False have "a # xs = (a # pre) @ x # suf \<and> P x \<and> (\<forall>y \<in> set (a # pre). \<not> P y)" by simp
      then show "\<exists>pre suf. a # xs = pre @ x # suf \<and> P x \<and> (\<forall>y \<in> set pre. \<not> P y)" by blast
    qed
    with False Cons.IH show ?thesis by simp
  qed
qed

lemma find_exact: "List.find (\<lambda>n. n = k) xs = (if k \<in> set xs then Some k else None)"
  by (induction xs) auto

lemma truthy_exact: "k \<noteq> [] \<Longrightarrow> truthy (List.find (\<lambda>n. n = k) xs) = (if k \<in> set xs then Some k else None)"
  by (simp add: find_exact truthy_def)

lemma name_like_nonempty: "sublist ''name'' (lower h) \<Longrightarrow> h \<noteq> []"
  by (auto simp: lower_def)

lemma truthy_name_like:
  "truthy (List.find (\<lambda>name. sublist ''name'' (lower name)) xs) = List.find (\<lambda>name. sublist ''name'' (lower name)) xs"
proof (cases "List.find (\<lambda>name. sublist ''name'' (lower name)) xs")
  case None
  then show ?thesis by (simp add: truthy_def)
next
  case (Some h)
  then have "sublist ''name'' (lower h)" by (auto simp: find_Some_iff)
  then have "h \<noteq> []" by (rule name_like_nonempty)
  with Some show ?thesis by (simp add: truthy_def)
qed

lemma find_name_column_cases:
  "find_name_column fieldnames lbl =
     (if ''Name'' \<in> set fieldnames then Inr ''Name''
      else case List.find (\<lambda>name. sublist ''name'' (lower name)) fieldnames of
             Some h \<Rightarrow> Inr h
           | None \<Rightarrow> Inl (ValueError (''Could not find a name column in '' @ lbl @ ''.'')))"
  by (simp add: find_name_column_def truthy_exact truthy_name_like)

text \<open>
  Claim C6. The name-column inference returns the header \<open>Name\<close> when the header list
  has it; otherwise the first header, in header order, whose lower-cased text contains
  \<open>name\<close>; otherwise it fails with the \<open>ValueError\<close> whose message names the file.
  It returns nothing else and fails in no other case.
\<close>

theorem find_name_column_inference:
  "(find_name_column fieldnames lbl = Inr h \<longleftrightarrow>
      (''Name'' \<in> set fieldnames \<and> h = ''Name'') \<or>
      (''Name'' \<notin> set fieldnames \<and>
        (\<exists>pre suf. fieldnames = pre @ h # suf \<and> sublist ''name'' (lower h)
            \<and> (\<forall>x \<in> set pre. \<not> sublist ''name'' (lower x)))))
   \<and> (find_name_column fieldnames lbl = Inl e \<longleftrightarrow>
      (''Name'' \<notin> set fieldnames \<and> (\<forall>x \<in> set fieldnames. \<not> sublist ''name'' (lower x))
        \<and> e = ValueError (''Could not find a name column in '' @ lbl @ ''.'')))"
proof (cases "''Name'' \<in> set fieldnames")
  case True
  then show ?thesis by (auto simp: find_name_column_cases)
next
  case False
  show ?thesis
  proof (cases "List.find (\<lambda>name. sublist ''name'' (lower name)) fieldnames")
    case None
    then have "\<forall>x \<in> set fieldnames. \<not> sublist ''name'' (lower x)"
      by (simp add: find_None_iff)
    with False None show ?thesis
      by (auto simp: find_name_column_cases)
  next
    case (Some c)
    have a: "\<And>h. (c = h) = (\<exists>pre suf. fieldnames = pre @ h # suf \<and> sublist ''name'' (lower h)
            \<and> (\<forall>x \<in> set pre. \<not> sublist ''name'' (lower x)))"
    proof -
      fix h
      have "(List.find (\<lambda>name. sublist ''name'' (lower name)) fieldnames = Some h) =
            (\<exists>pre suf. fieldnames = pre @ h # suf \<and> sublist ''name'' (lower h)
              \<and> (\<forall>x \<in> set pre. \<not> sublist ''name'' (lower x)))"
        by (rule find_first)
      with Some show "(c = h) = (\<exists>pre suf. fieldnames = pre @ h # suf \<and> sublist ''name'' (lower h)
            \<and> (\<forall>x \<in> set pre. \<not> sublist ''name'' (lower x)))"
        by simp
    qed
    have b: "\<not> (\<forall>x \<in> set fieldnames. \<not> sublist ''name'' (lower x))"
      using Some find_None_iff [of "\<lambda>name. sublist ''name'' (lower name)" fieldnames] by auto
    have r: "find_name_column fieldnames lbl = Inr c"
      using False Some by (simp add: find_name_column_cases)
    have p1: "(find_name_column fieldnames lbl = Inr h) =
      (''Name'' \<in> set fieldnames \<and> h = ''Name'' \<or>
       ''Name'' \<notin> set fieldnames \<and>
        (\<exists>pre suf. fieldnames = pre @ h # suf \<and> sublist ''name'' (lower h)
            \<and> (\<forall>x \<in> set pre. \<not> sublist ''name'' (lower x))))"
      unfolding r a [of h, symmetric] using False by simp
    have p2: "(find_name_column fieldnames lbl = Inl e) =
      (''Name'' \<notin> set fieldnames \<and> (\<forall>x \<in> set fieldnames. \<not> sublist ''name'' (lower x))
        \<and> e = ValueError (''Could not find a name column in '' @ lbl @ ''.''))"
      unfolding r using b by simp
    from p1 p2 show ?thesis by (rule conjI)
  qed
qed

text \<open>
  The headers \<open>ID\<close>, \<open>Item Name\<close>, \<open>Value\<close>: no exact match, and the second header is
  the first that contains \<open>name\<close> once lower-cased.
\<close>

theorem find_name_column_inference_witness:
  "find_name_column [''ID'', ''Item Name'', ''Value''] ''AllValues.csv'' = Inr ''Item Name''
   \<and> ''Name'' \<notin> set [''ID'', ''Item Name'', ''Value'']
   \<and> (\<exists>pre suf. [''ID'', ''Item Name'', ''Value''] = pre @ ''Item Name'' # suf
        \<and> sublist ''name'' (lower ''Item Name'')
        \<and> (\<forall>x \<in> set pre. \<not> sublist ''name'' (lower x)))"
proof -
  have "find_name_column [''ID'', ''Item Name'', ''Value''] ''AllValues.csv'' = Inr ''Item Name''"
    by code_simp
  with find_name_column_inference [of "[''ID'', ''Item Name'', ''Value'']" "''AllValues.csv''" "''Item Name''"]
  show ?thesis by simp
qed

section \<open>Properties of the points-column inference\<close>

lemma find_result_Inr:
  "((case List.find P xs of Some c \<Rightarrow> Inr c | None \<Rightarrow> Inl err) = Inr h) =
     (\<exists>pre suf. xs = pre @ h # suf \<and> P h \<and> (\<forall>x \<in> set pre. \<not> P x))"
proof (cases "List.find P xs")
  case None
  then have "\<forall>x \<in> set xs. \<not> P x" by (simp add: find_None_iff)
  then have "\<not> (\<exists>pre suf. xs = pre @ h # suf \<and> P h \<and> (\<forall>x \<in> set pre. \<not> P x))" by auto
  with None show ?thesis by simp
next
  case (Some c)
  have "(List.find P xs = Some h) = (\<exists>pre suf. xs = pre @ h # suf \<and> P h \<and> (\<forall>x \<in> set pre. \<not> P x))"
    by (rule find_first)
  with Some show ?thesis by simp
qed

lemma find_result_Inl:
  "((case List.find P xs of Some c \<Rightarrow> Inr c | None \<Rightarrow> Inl err) = Inl e) =
     ((\<forall>x \<in> set xs. \<not> P x) \<and> e = err)"
proof (cases "List.find P xs")
  case None
  then have "\<forall>x \<in> set xs. \<not> P x" by (simp add: find_None_iff)
  with None show ?thesis by auto
next
  case (Some c)
  then have "\<not> (\<forall>x \<in> set xs. \<not> P x)"
    using find_None_iff [of P xs] by auto
  with Some show ?thesis by simp
qed

lemma non_blank_iff: "non_blank v = (\<not> blank_cell v)"
  by (simp add: non_blank_def blank_cell_def split: option.splits)

lemma is_numeric_non_blank: "non_blank v \<Longrightarrow> is_numeric fp v = parses_as_float fp v"
  by (auto simp: non_blank_def is_numeric_def parses_as_float_def Let_def split: option.splits)

lemma numeric_column_spec: "numeric_column fp rows c = spec_numeric_column fp rows c"
proof -
  let ?vs = "map (\<lambda>row. dict_get row c (Some '''')) rows"
  have a: "(filter non_blank ?vs \<noteq> []) = (\<exists>r \<in> set rows. \<not> blank_cell (dict_get r c (Some '''')))"
    by (auto simp: filter_empty_conv non_blank_iff)
  have b: "list_all (is_numeric fp) (filter non_blank ?vs) =
        (\<forall>r \<in> set rows. \<not> blank_cell (dict_get r c (Some ''''))
            \<longrightarrow> parses_as_float fp (dict_get r c (Some '''')))"
    by (auto simp: list_all_iff is_numeric_non_blank non_blank_iff [symmetric])
  show ?thesis
    unfolding numeric_column_def spec_numeric_column_def Let_def a b ..
qed

lemma first_numeric_column_find:
  "first_numeric_column fp fieldnames rows = List.find (spec_numeric_column fp rows) fieldnames"
  by (induction fieldnames) (simp_all add: numeric_column_spec)

lemma find_points_column_cases:
  "find_points_column fp fieldnames rows =
     (if ''Points'' \<in> set fieldnames then Inr ''Points''
      else case List.find (spec_numeric_column fp rows) fieldnames of
             Some c \<Rightarrow> Inr c
           | None \<Rightarrow> Inl (ValueError ''Could not find a points column in AllValues.csv.''))"
  by (simp add: find_points_column_def truthy_exact first_numeric_column_find)

text \<open>
  Claim C5. The points-column inference returns the header \<open>Points\<close> when the header list
  has it; otherwise the first header, in header order, whose column has a cell that is not
  blank and only cells that are blank or accepted by \<open>float\<close>; otherwise it fails with the
  \<open>ValueError\<close> of the missing points column. It returns nothing else and fails in no
  other case.
\<close>

theorem find_points_column_inference:
  "(find_points_column fp fieldnames rows = Inr c \<longleftrightarrow>
      (''Points'' \<in> set fieldnames \<and> c = ''Points'') \<or>
      (''Points'' \<notin> set fieldnames \<and>
        (\<exists>pre suf. fieldnames = pre @ c # suf \<and> spec_numeric_column fp rows c
            \<and> (\<forall>x \<in> set pre. \<not> spec_numeric_column fp rows x))))
   \<and> (find_points_column fp fieldnames rows = Inl e \<longleftrightarrow>
      (''Points'' \<notin> set fieldnames \<and> (\<forall>x \<in> set fieldnames. \<not> spec_numeric_column fp rows x)
        \<and> e = ValueError ''Could not find a points column in AllValues.csv.''))"
proof (cases "''Points'' \<in> set fieldnames")
  case True
  then show ?thesis by (auto simp: find_points_column_cases)
next
  case False
  then show ?thesis
    by (simp add: find_points_column_cases find_result_Inr find_result_Inl)
qed

text \<open>
  A table without a \<open>Points\<close> header: the first column holds words, the second is blank
  throughout, the third holds a number and a blank cell and is the one chosen.
\<close>

theorem find_points_column_inference_witness:
  "find_points_column digits_only [''Item Name'', ''Note'', ''Value'']
      [[(''Item Name'', Some ''Alpha''), (''Note'', Some ''''), (''Value'', Some ''10'')],
       [(''Item Name'', Some ''Beta''), (''Note'', None), (''Value'', Some '''')]] = Inr ''Value''
   \<and> ''Points'' \<notin> set [''Item Name'', ''Note'', ''Value'']
   \<and> (\<exists>pre suf. [''Item Name'', ''Note'', ''Value''] = pre @ ''Value'' # suf
        \<and> spec_numeric_column digits_only
             [[(''Item Name'', Some ''Alpha''), (''Note'', Some ''''), (''Value'', Some ''10'')],
              [(''Item Name'', Some ''Beta''), (''Note'', None), (''Value'', Some '''')]] ''Value''
        \<and> (\<forall>x \<in> set pre. \<not> spec_numeric_column digits_only
             [[(''Item Name'', Some ''Alpha''), (''Note'', Some ''''), (''Value'', Some ''10'')],
              [(''Item Name'', Some ''Beta''), (''Note'', None), (''Value'', Some '''')]] x))"
proof -
  have "find_points_column digits_only [''Item Name'', ''Note'', ''Value'']
      [[(''Item Name'', Some ''Alpha''), (''Note'', Some ''''), (''Value'', Some ''10'')],
       [(''Item Name'', Some ''Beta''), (''Note'', None), (''Value'', Some '''')]] = Inr ''Value''"
    by code_simp
  with find_points_column_inference [of digits_only "[''Item Name'', ''Note'', ''Value'']"
      "[[(''Item Name'', Some ''Alpha''), (''Note'', Some ''''), (''Value'', Some ''10'')],
       [(''Item Name'', Some ''Beta''), (''Note'', None), (''Value'', Some '''')]]" "''Value''"]
  show ?thesis by simp
qed

section \<open>Properties of the join\<close>

lemma map_of_dict_set: "map_of (dict_set k v d) = (map_of d)(k \<mapsto> v)"
  by (induction d) (auto simp: fun_eq_iff)

lemma dict_set_fresh: "k \<notin> fst ` set d \<Longrightarrow> dict_set k v d = d @ [(k, v)]"
  by (induction d) auto

lemma dict_set_present: "k \<in> fst ` set d \<Longrightarrow> map fst (dict_set k v d) = map fst d"
  by (induction d) force+

lemma dict_contains_iff: "dict_contains d k = (k \<in> fst ` set d)"
  by (simp add: dict_contains_def map_of_eq_None_iff)

lemma index_loop_lookup:
  "map_of (fst (index_loop nc pc rows (idx, dups))) k =
     (case map_of idx k of
        Some v \<Rightarrow> Some v
      | None \<Rightarrow> map_option (\<lambda>r. dict_get r pc (Some ''''))
                  (List.find (\<lambda>r. dict_get r nc (Some '''') = k) rows))"
proof (induction rows arbitrary: idx dups)
  case Nil
  then show ?case by (simp split: option.splits)
next
  case (Cons row rows)
  show ?case
  proof (cases "dict_contains idx (dict_get row nc (Some ''''))")
    case True
    then show ?thesis
      using Cons.IH [of idx "dups @ [dict_get row nc (Some '''')]"]
      by (auto simp: dict_contains_def split: option.splits)
  next
    case False
    then show ?thesis
      using Cons.IH [of "dict_set (dict_get row nc (Some '''')) (dict_get row pc (Some '''')) idx" dups]
      by (auto simp: dict_contains_def map_of_dict_set split: option.splits)
  qed
qed

lemma join_loop_output:
  "snd (join_loop idx nc rows (missing, out)) =
     out @ map (\<lambda>row. \<lparr>Name = dict_get row nc (Some ''''),
                        Points = dict_get idx (dict_get row nc (Some '''')) (Some '''')\<rparr>) rows"
  by (induction rows arbitrary: missing out) (simp_all add: Let_def)

lemma join_loop_missing:
  "fst (join_loop idx nc rows (missing, out)) =
     missing @ map (\<lambda>row. dict_get row nc (Some ''''))
                 (filter (\<lambda>row. dict_get idx (dict_get row nc (Some '''')) (Some '''') = Some '''') rows)"
  by (induction rows arbitrary: missing out) (simp_all add: Let_def)

text \<open>
  Claim C1. The joined rows are the rows of the available-items table, one for one and in
  input order: each carries the row's name and, as its points, the points-column value of
  the first value-source row whose name-column value is that name, or the empty string when
  no value-source row has that name.
\<close>

theorem left_join_correct:
  "snd (join_loop (fst (index_loop all_name_column points_column all_rows ([], [])))
          available_name_column available_rows ([], [])) =
     map (\<lambda>row. \<lparr>Name = dict_get row available_name_column (Some ''''),
                  Points = (case List.find (\<lambda>r. dict_get r all_name_column (Some '''')
                                                  = dict_get row available_name_column (Some '''')) all_rows of
                              Some r \<Rightarrow> dict_get r points_column (Some '''')
                            | None \<Rightarrow> Some '''')\<rparr>) available_rows"
  by (simp add: join_loop_output dict_get_def [of "fst (index_loop all_name_column points_column all_rows ([], []))"]
        index_loop_lookup split: option.splits)

lemma main_writes:
  assumes "load_csv lib ALL_VALUES_PATH all_content = Inr (all_fields, all_rows)"
    and "load_csv lib AVAILABLE_PATH available_content = Inr (available_fields, available_rows)"
    and "find_name_column all_fields ALL_VALUES_PATH = Inr all_name_column"
    and "find_name_column available_fields AVAILABLE_PATH = Inr available_name_column"
    and "find_points_column (float_parses lib) all_fields all_rows = Inr points_column"
  shows "\<exists>rest. fst (main lib all_content available_content) =
           Written OUTPUT_PATH [''Name'', ''Points'']
             (snd (join_loop (fst (index_loop all_name_column points_column all_rows ([], [])))
                     available_name_column available_rows ([], []))) # rest"
  using assms
  by (simp add: main_def Let_def split: prod.splits sum.splits)

text \<open>
  Claim C2. Whatever the lookup index holds, the join emits as many rows as the
  available-items table has, the name of each input row in its place (a repeated name
  gives a row each time). When both tables load and their columns are found, the run
  writes the output file with exactly as many rows as the available-items table has.
\<close>

theorem join_total:
  "length (snd (join_loop points_by_name available_name_column available_rows ([], []))) = length available_rows
   \<and> map Name (snd (join_loop points_by_name available_name_column available_rows ([], [])))
       = map (\<lambda>row. dict_get row available_name_column (Some '''')) available_rows
   \<and> (load_csv lib ALL_VALUES_PATH all_content = Inr (all_fields, all_rows)
      \<and> load_csv lib AVAILABLE_PATH available_content = Inr (available_fields, available_rows)
      \<and> find_name_column all_fields ALL_VALUES_PATH = Inr all_name_column
      \<and> find_name_column available_fields AVAILABLE_PATH = Inr name_column
      \<and> find_points_column (float_parses lib) all_fields all_rows = Inr points_column
      \<longrightarrow> (\<exists>output_rows rest. fst (main lib all_content available_content) =
               Written OUTPUT_PATH [''Name'', ''Points''] output_rows # rest
             \<and> length output_rows = length available_rows))"
proof (intro conjI impI)
  show "length (snd (join_loop points_by_name available_name_column available_rows ([], []))) = length available_rows"
    by (simp add: join_loop_output)
  show "map Name (snd (join_loop points_by_name available_name_column available_rows ([], [])))
       = map (\<lambda>row. dict_get row available_name_column (Some '''')) available_rows"
    by (simp add: join_loop_output comp_def)
  assume a: "load_csv lib ALL_VALUES_PATH all_content = Inr (all_fields, all_rows)
      \<and> load_csv lib AVAILABLE_PATH available_content = Inr (available_fields, available_rows)
      \<and> find_name_column all_fields ALL_VALUES_PATH = Inr all_name_column
      \<and> find_name_column available_fields AVAILABLE_PATH = Inr name_column
      \<and> find_points_column (float_parses lib) all_fields all_rows = Inr points_column"
  then obtain rest where "fst (main lib all_content available_content) =
           Written OUTPUT_PATH [''Name'', ''Points'']
             (snd (join_loop (fst (index_loop all_name_column points_column all_rows ([], [])))
                     name_column available_rows ([], []))) # rest"
    using main_writes [of lib all_content all_fields all_rows available_content available_fields
        available_rows all_name_column name_column points_column] by auto
  moreover have "length (snd (join_loop (fst (index_loop all_name_column points_column all_rows ([], [])))
                     name_column available_rows ([], []))) = length available_rows"
    by (simp add: join_loop_output)
  ultimately show "\<exists>output_rows rest. fst (main lib all_content available_content) =
               Written OUTPUT_PATH [''Name'', ''Points''] output_rows # rest
             \<and> length output_rows = length available_rows"
    by blast
qed

text \<open>
  The value source \<open>Alpha,10\<close>, \<open>Beta,20\<close>, \<open>Alpha,99\<close> and the available items
  \<open>Beta\<close>, \<open>Gamma\<close>: two rows are written, although only one name matches.
\<close>

theorem join_total_witness:
  "load_csv ascii_lib ALL_VALUES_PATH (bytes_of ''Name,Points\<newline>Alpha,10\<newline>Beta,20\<newline>Alpha,99'')
      = Inr ([''Name'', ''Points''],
             [[(''Name'', Some ''Alpha''), (''Points'', Some ''10'')],
              [(''Name'', Some ''Beta''), (''Points'', Some ''20'')],
              [(''Name'', Some ''Alpha''), (''Points'', Some ''99'')]])
   \<and> load_csv ascii_lib AVAILABLE_PATH (bytes_of ''Name\<newline>Beta\<newline>Gamma'')
      = Inr ([''Name''], [[(''Name'', Some ''Beta'')], [(''Name'', Some ''Gamma'')]])
   \<and> find_name_column [''Name'', ''Points''] ALL_VALUES_PATH = Inr ''Name''
   \<and> find_name_column [''Name''] AVAILABLE_PATH = Inr ''Name''
   \<and> find_points_column (float_parses ascii_lib) [''Name'', ''Points'']
             [[(''Name'', Some ''Alpha''), (''Points'', Some ''10'')],
              [(''Name'', Some ''Beta''), (''Points'', Some ''20'')],
              [(''Name'', Some ''Alpha''), (''Points'', Some ''99'')]] = Inr ''Points''
   \<and> (\<exists>output_rows rest.
         fst (main ascii_lib (bytes_of ''Name,Points\<newline>Alpha,10\<newline>Beta,20\<newline>Alpha,99'')
                (bytes_of ''Name\<newline>Beta\<newline>Gamma''))
           = Written OUTPUT_PATH [''Name'', ''Points''] output_rows # rest
       \<and> length output_rows = length [[(''Name'', Some ''Beta'')], [(''Name'', Some ''Gamma'')]])"
proof -
  let ?a = "bytes_of ''Name,Points\<newline>Alpha,10\<newline>Beta,20\<newline>Alpha,99''"
  let ?b = "bytes_of ''Name\<newline>Beta\<newline>Gamma''"
  let ?ar = "[[(''Name'', Some ''Alpha''), (''Points'', Some ''10'')],
              [(''Name'', Some ''Beta''), (''Points'', Some ''20'')],
              [(''Name'', Some ''Alpha''), (''Points'', Some ''99'')]]"
  let ?vr = "[[(''Name'', Some ''Beta'')], [(''Name'', Some ''Gamma'')]]"
  have h1: "load_csv ascii_lib ALL_VALUES_PATH ?a = Inr ([''Name'', ''Points''], ?ar)"
    by code_simp
  have h2: "load_csv ascii_lib AVAILABLE_PATH ?b = Inr ([''Name''], ?vr)"
    by code_simp
  have h3: "find_name_column [''Name'', ''Points''] ALL_VALUES_PATH = Inr ''Name''"
    by code_simp
  have h4: "find_name_column [''Name''] AVAILABLE_PATH = Inr ''Name''"
    by code_simp
  have h5: "find_points_column (float_parses ascii_lib) [''Name'', ''Points''] ?ar = Inr ''Points''"
    by code_simp
  from h1 h2 h3 h4 h5 have h:
    "load_csv ascii_lib ALL_VALUES_PATH ?a = Inr ([''Name'', ''Points''], ?ar)
      \<and> load_csv ascii_lib AVAILABLE_PATH ?b = Inr ([''Name''], ?vr)
      \<and> find_name_column [''Name'', ''Points''] ALL_VALUES_PATH = Inr ''Name''
      \<and> find_name_column [''Name''] AVAILABLE_PATH = Inr ''Name''
      \<and> find_points_column (float_parses ascii_lib) [''Name'', ''Points''] ?ar = Inr ''Points''"
    by (intro conjI)
  note w = join_total [where lib = ascii_lib and all_content = ?a and available_content = ?b
      and all_fields = "[''Name'', ''Points'']" and all_rows = ?ar
      and available_fields = "[''Name'']" and available_rows = ?vr
      and all_name_column = "''Name''" and name_column = "''Name''" and points_column = "''Points''"]
  from w [THEN conjunct2, THEN conjunct2] h
  have c: "\<exists>output_rows rest. fst (main ascii_lib ?a ?b)
           = Written OUTPUT_PATH [''Name'', ''Points''] output_rows # rest
       \<and> length output_rows = length ?vr"
    by (rule mp)
  from h1 h2 h3 h4 h5 c show ?thesis by (intro conjI)
qed

lemma dict_set_keys: "fst ` set (dict_set k v d) = insert k (fst ` set d)"
proof (induction d)
  case Nil
  then show ?case by simp
next
  case (Cons a d)
  then show ?case by (cases a) (simp add: insert_commute)
qed

lemma index_loop_duplicates:
  "snd (index_loop nc pc rows (idx, dups)) =
     dups @ repeats_from (fst ` set idx) (map (\<lambda>r. dict_get r nc (Some '''')) rows)"
proof (induction rows arbitrary: idx dups)
  case Nil
  then show ?case by simp
next
  case (Cons row rows)
  then show ?case
    by (simp add: Let_def dict_contains_iff dict_set_keys)
qed

lemma repeats_from_index:
  "repeats_from S xs = map (\<lambda>i. xs ! i) (filter (\<lambda>i. xs ! i \<in> S \<union> set (take i xs)) [0..<length xs])"
proof (induction xs arbitrary: S)
  case Nil
  then show ?case by simp
next
  case (Cons x xs)
  have shift: "[0..<length (x # xs)] = 0 # map Suc [0..<length xs]"
    by (simp add: upt_conv_Cons map_Suc_upt del: upt_Suc)
  have tl: "map (\<lambda>i. (x # xs) ! i) (filter (\<lambda>i. (x # xs) ! i \<in> S \<union> set (take i (x # xs))) (map Suc [0..<length xs]))
      = map (\<lambda>i. xs ! i) (filter (\<lambda>i. xs ! i \<in> insert x S \<union> set (take i xs)) [0..<length xs])"
  proof -
    have g: "map (\<lambda>i. (x # xs) ! i) (filter P0 (map Suc l)) = map (\<lambda>i. xs ! i) (filter (\<lambda>i. P0 (Suc i)) l)"
      for P0 and l :: "nat list"
      by (induction l) auto
    have p: "(\<lambda>i. (x # xs) ! Suc i \<in> S \<union> set (take (Suc i) (x # xs))) = (\<lambda>i. xs ! i \<in> insert x S \<union> set (take i xs))"
      by (auto simp: fun_eq_iff)
    show ?thesis
      unfolding g p ..
  qed
  have hd0: "(x # xs) ! 0 \<in> S \<union> set (take 0 (x # xs)) \<longleftrightarrow> x \<in> S"
    by simp
  have unf: "map (\<lambda>i. (x # xs) ! i) (filter (\<lambda>i. (x # xs) ! i \<in> S \<union> set (take i (x # xs))) [0..<length (x # xs)])
      = (if x \<in> S then [x] else []) @ map (\<lambda>i. xs ! i) (filter (\<lambda>i. xs ! i \<in> insert x S \<union> set (take i xs)) [0..<length xs])"
  proof -
    have "filter (\<lambda>i. (x # xs) ! i \<in> S \<union> set (take i (x # xs))) (0 # map Suc [0..<length xs])
        = (if x \<in> S then [0] else []) @ filter (\<lambda>i. (x # xs) ! i \<in> S \<union> set (take i (x # xs))) (map Suc [0..<length xs])"
      using hd0 by simp
    then show ?thesis
      unfolding shift using tl by simp
  qed
  show ?case
  proof (cases "x \<in> S")
    case True
    then have "insert x S = S" by auto
    with True Cons.IH [of S] show ?thesis
      unfolding unf by simp
  next
    case False
    with Cons.IH [of "insert x S"] show ?thesis
      unfolding unf by simp
  qed
qed

lemma repeats_from_empty: "repeats_from {} xs = repeat_occurrences xs"
  by (simp add: repeats_from_index repeat_occurrences_def)

lemma set_repeats_from:
  "k \<in> set (repeats_from S xs) \<longleftrightarrow> (k \<in> S \<and> k \<in> set xs) \<or> 2 \<le> count_list xs k"
proof (induction xs arbitrary: S)
  case Nil
  then show ?case by simp
next
  case (Cons x xs)
  have c: "(Suc 0 \<le> count_list xs y) = (y \<in> set xs)" for y
  proof -
    have "(count_list xs y = 0) = (y \<notin> set xs)" by (rule count_list_0_iff)
    then show ?thesis by (cases "count_list xs y") auto
  qed
  show ?case
  proof (cases "x \<in> S")
    case True
    with Cons.IH [of S] show ?thesis by (auto simp: c)
  next
    case False
    with Cons.IH [of "insert x S"] show ?thesis by (auto simp: c)
  qed
qed

lemma set_first_seen: "set (first_seen xs) = set xs"
  by (induction xs) auto

lemma distinct_first_seen: "distinct (first_seen xs)"
  by (induction xs) (auto simp: distinct_removeAll)

lemma fromkeys_keys:
  "map fst (fold (\<lambda>k d. dict_set k () d) xs d) = map fst d @ filter (\<lambda>x. x \<notin> fst ` set d) (first_seen xs)"
proof (induction xs arbitrary: d)
  case Nil
  then show ?case by simp
next
  case (Cons x xs)
  show ?case
  proof (cases "x \<in> fst ` set d")
    case True
    have "filter (\<lambda>y. y \<notin> fst ` set d) (removeAll x (first_seen xs)) = filter (\<lambda>y. y \<notin> fst ` set d) (first_seen xs)"
      using True by (auto simp: removeAll_filter_not_eq intro: filter_cong)
    with True Cons.IH [of "dict_set x () d"] show ?thesis
      by (simp add: dict_set_present dict_set_keys insert_absorb)
  next
    case False
    have "filter (\<lambda>y. y \<notin> insert x (fst ` set d)) (first_seen xs) = filter (\<lambda>y. y \<notin> fst ` set d) (removeAll x (first_seen xs))"
      by (auto simp: removeAll_filter_not_eq intro: filter_cong)
    with False Cons.IH [of "dict_set x () d"] show ?thesis
      by (simp add: dict_set_fresh dict_set_keys)
  qed
qed

lemma unique_first_seen: "unique xs = first_seen xs"
  by (simp add: unique_def dict_fromkeys_def fromkeys_keys)

lemma those_map_Some: "those (map Some xs) = Some xs"
  by (induction xs) simp_all

lemma warn_list_strings:
  "warn_list prefix_text (map Some names) = Inr (if names = [] then [] else [Warned prefix_text names])"
  by (simp add: warn_list_def those_map_Some)

lemma index_loop_keeps:
  "map_of idx k = Some v \<Longrightarrow> map_of (fst (index_loop nc pc rows (idx, dups))) k = Some v"
  by (simp add: index_loop_lookup)

text \<open>
  The first loop of \<open>main\<close> and the list handed to the report. While the index is built, a
  key that is present keeps its value. Built from the empty index, the index maps a key to
  the points of the first row with that key, the duplicate list is the list of repeat
  occurrences of keys in file order, and its deduplication keeps first occurrences in
  first-seen order: it holds every key that occurs at least twice, once.
\<close>

lemma index_first_occurrence:
  "(\<forall>k v. map_of points_by_name k = Some v \<longrightarrow>
       map_of (fst (index_loop all_name_column points_column all_rows (points_by_name, duplicate_names))) k = Some v)
   \<and> map_of (fst (index_loop all_name_column points_column all_rows ([], []))) =
       (\<lambda>k. map_option (\<lambda>r. dict_get r points_column (Some ''''))
               (List.find (\<lambda>r. dict_get r all_name_column (Some '''') = k) all_rows))
   \<and> snd (index_loop all_name_column points_column all_rows ([], [])) =
       repeat_occurrences (map (\<lambda>r. dict_get r all_name_column (Some '''')) all_rows)
   \<and> unique (snd (index_loop all_name_column points_column all_rows ([], []))) =
       first_seen (snd (index_loop all_name_column points_column all_rows ([], [])))
   \<and> distinct (unique (snd (index_loop all_name_column points_column all_rows ([], []))))
   \<and> set (unique (snd (index_loop all_name_column points_column all_rows ([], [])))) =
       {k. 2 \<le> count_list (map (\<lambda>r. dict_get r all_name_column (Some '''')) all_rows) k}"
proof -
  let ?keys = "map (\<lambda>r. dict_get r all_name_column (Some '''')) all_rows"
  let ?dups = "snd (index_loop all_name_column points_column all_rows ([], []))"
  have keeps: "\<forall>k v. map_of points_by_name k = Some v \<longrightarrow>
       map_of (fst (index_loop all_name_column points_column all_rows (points_by_name, duplicate_names))) k = Some v"
    by (simp add: index_loop_keeps)
  have first: "map_of (fst (index_loop all_name_column points_column all_rows ([], []))) =
       (\<lambda>k. map_option (\<lambda>r. dict_get r points_column (Some ''''))
               (List.find (\<lambda>r. dict_get r all_name_column (Some '''') = k) all_rows))"
    by (rule ext) (simp add: index_loop_lookup)
  have dups: "?dups = repeats_from {} ?keys"
    by (simp add: index_loop_duplicates)
  have rec: "?dups = repeat_occurrences ?keys"
    by (simp add: dups repeats_from_empty)
  have once: "distinct (unique ?dups)"
    by (simp add: unique_first_seen distinct_first_seen)
  have which: "set (unique ?dups) = {k. 2 \<le> count_list ?keys k}"
    unfolding unique_first_seen set_first_seen dups
    using set_repeats_from [of _ "{}" ?keys] by auto
  from keeps first rec unique_first_seen [of ?dups] once which
  show ?thesis
    by (intro conjI)
qed

text \<open>
  When every duplicated key is a string, the run reports these names, after the output
  file is written.
\<close>

lemma main_reports_duplicates:
  assumes "load_csv lib ALL_VALUES_PATH all_content = Inr (all_fields, all_rows)"
    and "load_csv lib AVAILABLE_PATH available_content = Inr (available_fields, available_rows)"
    and "find_name_column all_fields ALL_VALUES_PATH = Inr all_name_column"
    and "find_name_column available_fields AVAILABLE_PATH = Inr available_name_column"
    and "find_points_column (float_parses lib) all_fields all_rows = Inr points_column"
    and "unique (snd (index_loop all_name_column points_column all_rows ([], []))) = map Some names"
  shows "\<exists>rest. fst (main lib all_content available_content) =
           Written OUTPUT_PATH [''Name'', ''Points'']
             (snd (join_loop (fst (index_loop all_name_column points_column all_rows ([], [])))
                     available_name_column available_rows ([], [])))
           # (if names = [] then []
              else [Warned ''Duplicate names in AllValues.csv (using first occurrence)'' names]) @ rest"
proof -
  obtain idx dups where i: "index_loop all_name_column points_column all_rows ([], []) = (idx, dups)"
    by (cases "index_loop all_name_column points_column all_rows ([], [])")
  obtain miss out where j: "join_loop idx available_name_column available_rows ([], []) = (miss, out)"
    by (cases "join_loop idx available_name_column available_rows ([], [])")
  from assms(6) i have u: "unique dups = map Some names" by simp
  have w: "warn_list ''Duplicate names in AllValues.csv (using first occurrence)'' (unique dups)
      = Inr (if names = [] then [] else [Warned ''Duplicate names in AllValues.csv (using first occurrence)'' names])"
    unfolding u by (rule warn_list_strings)
  show ?thesis
  proof (cases "warn_list ''Names from Available.csv not found in AllValues.csv'' (unique miss)")
    case (Inl e)
    with assms(1-5) i j w show ?thesis
      by (simp add: main_def Let_def)
  next
    case (Inr warned)
    with assms(1-5) i j w show ?thesis
      by (simp add: main_def Let_def)
  qed
qed

text \<open>
  Claim C3 holds of the index and of the deduplicated list, but not of the report. In a
  value source where \<open>A\<close> occurs twice and two rows are too short to have a name cell, the
  deduplicated list holds \<open>A\<close> and \<open>None\<close>, \<open>str.join\<close> raises \<open>TypeError\<close> on it, and the run
  ends after writing the output file without reporting any duplicate: the duplicated name
  \<open>A\<close> does not appear in the reported diagnostic.
\<close>

theorem duplicate_report_raises:
  "main ascii_lib (bytes_of ''ID,Name,Points\<newline>1,A,5\<newline>2,A,9\<newline>3\<newline>4'') (bytes_of ''Name\<newline>A'')
     = ([Written OUTPUT_PATH [''Name'', ''Points''] [\<lparr>Name = Some ''A'', Points = Some ''5''\<rparr>]],
        Some TypeError)
   \<and> unique (snd (index_loop ''Name'' ''Points''
        [[(''ID'', Some ''1''), (''Name'', Some ''A''), (''Points'', Some ''5'')],
         [(''ID'', Some ''2''), (''Name'', Some ''A''), (''Points'', Some ''9'')],
         [(''ID'', Some ''3''), (''Name'', None), (''Points'', None)],
         [(''ID'', Some ''4''), (''Name'', None), (''Points'', None)]] ([], [])))
     = [Some ''A'', None]"
  by code_simp

text \<open>
  Claim C4 as stated fails: a key that the index maps to the empty string (a value-source
  row \<open>A\<close> with a blank points cell) is present in the index and is recorded as missing.
\<close>

theorem missing_iff_absent_counterexample:
  "dict_contains (fst (index_loop ''Name'' ''Points''
        [[(''Name'', Some ''A''), (''Points'', Some '''')]] ([], []))) (Some ''A'')
   \<and> Some ''A'' \<in> set (fst (join_loop (fst (index_loop ''Name'' ''Points''
        [[(''Name'', Some ''A''), (''Points'', Some '''')]] ([], []))) ''Name''
        [[(''Name'', Some ''A'')]] ([], [])))"
  by (simp add: dict_get_def dict_contains_def Let_def)

text \<open>
  Claim C4, amended. For every available-items row: when its key is absent from the index,
  the key is recorded as missing and the joined points are the empty string; when the index
  maps its key to a value other than the empty string, the key is not recorded and the
  joined points are that value.
\<close>

theorem missing_key_diagnostic:
  assumes "i < length available_rows"
  shows "(\<not> dict_contains points_by_name (dict_get (available_rows ! i) available_name_column (Some ''''))
          \<longrightarrow> dict_get (available_rows ! i) available_name_column (Some '''')
                 \<in> set (fst (join_loop points_by_name available_name_column available_rows ([], [])))
              \<and> Points (snd (join_loop points_by_name available_name_column available_rows ([], [])) ! i) = Some '''')
       \<and> (\<forall>v. map_of points_by_name (dict_get (available_rows ! i) available_name_column (Some '''')) = Some v
              \<and> v \<noteq> Some ''''
          \<longrightarrow> dict_get (available_rows ! i) available_name_column (Some '''')
                 \<notin> set (fst (join_loop points_by_name available_name_column available_rows ([], [])))
              \<and> Points (snd (join_loop points_by_name available_name_column available_rows ([], [])) ! i) = v)"
proof -
  let ?key = "\<lambda>row. dict_get row available_name_column (Some '''')"
  let ?name = "?key (available_rows ! i)"
  have row: "available_rows ! i \<in> set available_rows"
    using assms by simp
  have out: "Points (snd (join_loop points_by_name available_name_column available_rows ([], [])) ! i)
      = dict_get points_by_name ?name (Some '''')"
    using assms by (simp add: join_loop_output)
  have mem: "?name \<in> set (fst (join_loop points_by_name available_name_column available_rows ([], [])))
      \<longleftrightarrow> dict_get points_by_name ?name (Some '''') = Some ''''"
  proof
    assume "?name \<in> set (fst (join_loop points_by_name available_name_column available_rows ([], [])))"
    then obtain r where "r \<in> set available_rows" "dict_get points_by_name (?key r) (Some '''') = Some ''''" "?key r = ?name"
      by (auto simp: join_loop_missing)
    then show "dict_get points_by_name ?name (Some '''') = Some ''''" by simp
  next
    assume "dict_get points_by_name ?name (Some '''') = Some ''''"
    with row show "?name \<in> set (fst (join_loop points_by_name available_name_column available_rows ([], [])))"
      by (auto simp: join_loop_missing)
  qed
  show ?thesis
    unfolding mem out by (auto simp: dict_get_def dict_contains_def)
qed

text \<open>
  The index of \<open>Alpha\<close> and \<open>Beta\<close> probed with \<open>Beta\<close> and \<open>Gamma\<close>.
\<close>

theorem missing_key_diagnostic_witness:
  "(0::nat) < length [[(''Name'', Some ''Beta'')], [(''Name'', Some ''Gamma'')]]
   \<and> Some ''Beta'' \<notin> set (fst (join_loop [(Some ''Alpha'', Some ''10''), (Some ''Beta'', Some ''20'')] ''Name''
         [[(''Name'', Some ''Beta'')], [(''Name'', Some ''Gamma'')]] ([], [])))
   \<and> Points (snd (join_loop [(Some ''Alpha'', Some ''10''), (Some ''Beta'', Some ''20'')] ''Name''
         [[(''Name'', Some ''Beta'')], [(''Name'', Some ''Gamma'')]] ([], [])) ! 0) = Some ''20''
   \<and> Some ''Gamma'' \<in> set (fst (join_loop [(Some ''Alpha'', Some ''10''), (Some ''Beta'', Some ''20'')] ''Name''
         [[(''Name'', Some ''Beta'')], [(''Name'', Some ''Gamma'')]] ([], [])))
   \<and> Points (snd (join_loop [(Some ''Alpha'', Some ''10''), (Some ''Beta'', Some ''20'')] ''Name''
         [[(''Name'', Some ''Beta'')], [(''Name'', Some ''Gamma'')]] ([], [])) ! 1) = Some ''''"
proof -
  let ?idx = "[(Some ''Alpha'', Some ''10''), (Some ''Beta'', Some ''20'')]"
  let ?rows = "[[(''Name'', Some ''Beta'')], [(''Name'', Some ''Gamma'')]]"
  have l0: "(0::nat) < length ?rows" and l1: "(1::nat) < length ?rows"
    by simp_all
  have k0: "dict_get (?rows ! 0) ''Name'' (Some '''') = Some ''Beta''"
    and k1: "dict_get (?rows ! 1) ''Name'' (Some '''') = Some ''Gamma''"
    by (simp_all add: dict_get_def)
  have m0: "map_of ?idx (Some ''Beta'') = Some (Some ''20'') \<and> Some ''20'' \<noteq> Some ''''"
    and m1: "\<not> dict_contains ?idx (Some ''Gamma'')"
    by (simp_all add: dict_contains_def)
  from missing_key_diagnostic [OF l0, of ?idx "''Name''"] m0
  have a: "Some ''Beta'' \<notin> set (fst (join_loop ?idx ''Name'' ?rows ([], [])))
      \<and> Points (snd (join_loop ?idx ''Name'' ?rows ([], [])) ! 0) = Some ''20''"
    unfolding k0 by blast
  from missing_key_diagnostic [OF l1, of ?idx "''Name''"] m1
  have b: "Some ''Gamma'' \<in> set (fst (join_loop ?idx ''Name'' ?rows ([], [])))
      \<and> Points (snd (join_loop ?idx ''Name'' ?rows ([], [])) ! 1) = Some ''''"
    unfolding k1 by blast
  from l0 a b show ?thesis by blast
qed

section \<open>Properties of the loader\<close>

lemma read_table_Returns:
  "read_table path rd = Returns t \<longleftrightarrow>
     (\<exists>header body. rd = (header # body, Reader EndOfFile) \<and> header \<noteq> []
        \<and> t = (map strip header, map cleaned_row (DictReader_rows header body)))"
  by (cases rd) (auto simp: read_table_def split: list.splits read_end.splits csv_end.splits)

lemma read_table_Caught:
  "read_table path rd = Caught \<longleftrightarrow>
     snd rd = DecodeErrorRaised \<and> (case fst rd of [] \<Rightarrow> True | header # body \<Rightarrow> header \<noteq> [])"
  by (cases rd) (auto simp: read_table_def split: list.splits read_end.splits csv_end.splits)

lemma read_table_Raises:
  "read_table path rd = Raises e \<Longrightarrow> e = CsvError \<or> e = ValueError (path @ '' has no header row.'')"
  by (cases rd) (auto simp: read_table_def split: list.splits read_end.splits csv_end.splits if_splits)

lemma read_table_no_header:
  "no_header rd \<Longrightarrow> read_table path rd = Raises (ValueError (path @ '' has no header row.''))"
  by (cases rd) (auto simp: read_table_def no_header_def split: list.splits read_end.splits csv_end.splits)

lemma read_records_latin_1: "snd (read_records lib Latin_1 content) \<noteq> DecodeErrorRaised"
  by (simp add: read_records_def split: prod.splits)

lemma load_loop_decodes:
  "Latin_1 \<in> set encodings \<Longrightarrow> load_loop lib path content encodings last_error \<noteq> Inl (UnicodeDecodeError enc reason)"
proof (induction encodings arbitrary: last_error)
  case Nil
  then show ?case by simp
next
  case (Cons encoding encodings)
  show ?case
  proof (cases "read_table path (read_records lib encoding content)")
    case (Returns t)
    then show ?thesis by simp
  next
    case (Raises e)
    then have "e = CsvError \<or> e = ValueError (path @ '' has no header row.'')"
      by (rule read_table_Raises)
    with Raises show ?thesis by auto
  next
    case Caught
    then have "snd (read_records lib encoding content) = DecodeErrorRaised"
      by (simp add: read_table_Caught)
    then have "encoding \<noteq> Latin_1"
      using read_records_latin_1 [of lib content] by auto
    with Cons.prems have "Latin_1 \<in> set encodings" by simp
    then have "load_loop lib path content encodings (Some encoding) \<noteq> Inl (UnicodeDecodeError enc reason)"
      by (rule Cons.IH)
    with Caught show ?thesis by simp
  qed
qed

text \<open>
  Claim C10. Whatever the bytes of the file and whatever the interpreter delivers under the
  first two encodings, the loader does not end with its \<open>UnicodeDecodeError\<close>: the attempt
  under latin-1 cannot fail to decode, so the loop over the encodings is never exhausted.
\<close>

theorem decode_error_unreachable:
  "snd (read_records lib Latin_1 content) \<noteq> DecodeErrorRaised
   \<and> load_csv lib path content \<noteq> Inl (UnicodeDecodeError enc reason)"
proof
  show "snd (read_records lib Latin_1 content) \<noteq> DecodeErrorRaised"
    by (rule read_records_latin_1)
  show "load_csv lib path content \<noteq> Inl (UnicodeDecodeError enc reason)"
    unfolding load_csv_def by (rule load_loop_decodes) simp
qed

lemma load_loop_Inr:
  "load_loop lib path content encodings last_error = Inr t \<Longrightarrow>
     \<exists>pre encoding suf. encodings = pre @ encoding # suf
        \<and> (\<forall>e \<in> set pre. read_table path (read_records lib e content) = Caught)
        \<and> read_table path (read_records lib encoding content) = Returns t"
proof (induction encodings arbitrary: last_error)
  case Nil
  then show ?case by simp
next
  case (Cons encoding encodings)
  show ?case
  proof (cases "read_table path (read_records lib encoding content)")
    case (Returns t')
    with Cons.prems have "t' = t" by simp
    with Returns have "encoding # encodings = [] @ encoding # encodings
        \<and> (\<forall>e \<in> set []. read_table path (read_records lib e content) = Caught)
        \<and> read_table path (read_records lib encoding content) = Returns t"
      by simp
    then show ?thesis by blast
  next
    case (Raises e)
    with Cons.prems show ?thesis by simp
  next
    case Caught
    with Cons.prems have "load_loop lib path content encodings (Some encoding) = Inr t" by simp
    then obtain pre enc suf where h: "encodings = pre @ enc # suf"
        "\<forall>e \<in> set pre. read_table path (read_records lib e content) = Caught"
        "read_table path (read_records lib enc content) = Returns t"
      using Cons.IH by blast
    with Caught have "encoding # encodings = (encoding # pre) @ enc # suf
        \<and> (\<forall>e \<in> set (encoding # pre). read_table path (read_records lib e content) = Caught)
        \<and> read_table path (read_records lib enc content) = Returns t"
      by simp
    then show ?thesis by blast
  qed
qed

lemma load_csv_Inr:
  assumes "load_csv lib path content = Inr (fieldnames, rows)"
  shows "\<exists>encoding header body. read_records lib encoding content = (header # body, Reader EndOfFile)
           \<and> header \<noteq> [] \<and> fieldnames = map strip header
           \<and> rows = map cleaned_row (DictReader_rows header body)"
proof -
  from assms obtain encoding where "read_table path (read_records lib encoding content) = Returns (fieldnames, rows)"
    unfolding load_csv_def using load_loop_Inr by blast
  then show ?thesis
    by (auto simp: read_table_Returns)
qed

lemma last_dropWhile: "dropWhile P xs \<noteq> [] \<Longrightarrow> last (dropWhile P xs) = last xs"
  by (induction xs) (auto split: if_splits)

lemma strip_trimmed: "trimmed (strip s)"
proof -
  let ?t = "dropWhile isspace s"
  let ?u = "dropWhile isspace (rev ?t)"
  show ?thesis
  proof (cases "?u = []")
    case True
    then show ?thesis by (simp add: trimmed_def strip_def)
  next
    case False
    have t: "?t \<noteq> []"
    proof
      assume "?t = []"
      then have "?u = []" by (simp only: rev.simps dropWhile.simps)
      with False show False by simp
    qed
    from False have e: "\<not> isspace (hd ?u)" by (rule hd_dropWhile)
    from t have b: "\<not> isspace (hd ?t)" by (rule hd_dropWhile)
    from False have "last ?u = last (rev ?t)" by (rule last_dropWhile)
    also from t have "\<dots> = hd ?t" by (simp add: last_rev)
    finally have l: "last ?u = hd ?t" .
    from False have "hd (rev ?u) = last ?u" by (simp add: hd_rev)
    with l b have h: "\<not> isspace (hd (rev ?u))" by simp
    from False have "last (rev ?u) = hd ?u" by (simp add: last_rev)
    with e have "\<not> isspace (last (rev ?u))" by simp
    with h show ?thesis by (simp add: trimmed_def strip_def)
  qed
qed

lemma set_dict_set: "set (dict_set k v d) \<subseteq> insert (k, v) (set d)"
  by (induction d) (auto split: if_splits)

lemma set_fold_dict_set:
  "set (fold (\<lambda>x d. dict_set (fst (h x)) (snd (h x)) d) xs d0) \<subseteq> set d0 \<union> h ` set xs"
proof (induction xs arbitrary: d0)
  case Nil
  then show ?case by simp
next
  case (Cons x xs)
  have "set (fold (\<lambda>x d. dict_set (fst (h x)) (snd (h x)) d) xs (dict_set (fst (h x)) (snd (h x)) d0))
      \<subseteq> set (dict_set (fst (h x)) (snd (h x)) d0) \<union> h ` set xs"
    by (rule Cons.IH)
  also have "\<dots> \<subseteq> insert (h x) (set d0) \<union> h ` set xs"
    using set_dict_set [of "fst (h x)" "snd (h x)" d0] by auto
  finally show ?case by auto
qed

lemma fold_dict_set_fresh:
  "distinct (map fst d0 @ map (\<lambda>x. fst (h x)) xs) \<Longrightarrow>
     fold (\<lambda>x d. dict_set (fst (h x)) (snd (h x)) d) xs d0 = d0 @ map h xs"
proof (induction xs arbitrary: d0)
  case Nil
  then show ?case by simp
next
  case (Cons x xs)
  from Cons.prems have f: "fst (h x) \<notin> fst ` set d0" by auto
  then have s: "dict_set (fst (h x)) (snd (h x)) d0 = d0 @ [h x]"
    by (simp add: dict_set_fresh)
  from Cons.prems have "distinct (map fst (d0 @ [h x]) @ map (\<lambda>x. fst (h x)) xs)" by auto
  then have "fold (\<lambda>x d. dict_set (fst (h x)) (snd (h x)) d) xs (d0 @ [h x]) = (d0 @ [h x]) @ map h xs"
    by (rule Cons.IH)
  with s show ?case by simp
qed

lemma zip_fold_eq:
  "fold (\<lambda>(k, v) d. dict_set k (Some v) d) kvs d0 = fold (\<lambda>x d. dict_set (fst (case x of (k, v) \<Rightarrow> (k, Some v))) (snd (case x of (k, v) \<Rightarrow> (k, Some v))) d) kvs d0"
  by (rule arg_cong [where f = "\<lambda>f. fold f kvs d0"]) (auto simp: fun_eq_iff)

lemma clean_fold_eq:
  "fold (\<lambda>(key, value) cleaned. dict_set (strip key) (map_option strip value) cleaned) kvs d0
    = fold (\<lambda>x d. dict_set (fst (case x of (k, v) \<Rightarrow> (strip k, map_option strip v)))
                            (snd (case x of (k, v) \<Rightarrow> (strip k, map_option strip v))) d) kvs d0"
  by (rule arg_cong [where f = "\<lambda>f. fold f kvs d0"]) (auto simp: fun_eq_iff)

lemma DictReader_row_entries:
  "set (fst (DictReader_row header r)) \<subseteq>
     (\<lambda>(k, v). (k, Some v)) ` set (zip header r) \<union> (\<lambda>k. (k, None)) ` set (drop (length r) header)"
proof -
  let ?d = "fold (\<lambda>(k, v) d. dict_set k (Some v) d) (zip header r) []"
  have a: "set ?d \<subseteq> (\<lambda>(k, v). (k, Some v)) ` set (zip header r)"
    unfolding zip_fold_eq using set_fold_dict_set [of "\<lambda>(k, v). (k, Some v)" "zip header r" "[]"] by simp
  have b: "set (fold (\<lambda>key d. dict_set key None d) (drop (length r) header) ?d)
      \<subseteq> set ?d \<union> (\<lambda>k. (k, None)) ` set (drop (length r) header)"
    using set_fold_dict_set [of "\<lambda>k. (k, None)" "drop (length r) header" ?d] by simp
  from a b show ?thesis
    by (auto simp: DictReader_row_def Let_def)
qed

lemma DictReader_row_keys: "fst ` set (fst (DictReader_row header r)) \<subseteq> set header"
proof
  fix k assume "k \<in> fst ` set (fst (DictReader_row header r))"
  then obtain v where "(k, v) \<in> set (fst (DictReader_row header r))" by auto
  with DictReader_row_entries [of header r]
  have "(k, v) \<in> (\<lambda>(k, v). (k, Some v)) ` set (zip header r) \<union> (\<lambda>k. (k, None)) ` set (drop (length r) header)"
    by blast
  then show "k \<in> set header"
    by (auto dest: set_zip_leftD in_set_dropD)
qed

lemma cleaned_row_entries:
  "set (cleaned_row dr) \<subseteq> (\<lambda>(k, v). (strip k, map_option strip v)) ` set (fst dr)"
  unfolding cleaned_row_def clean_fold_eq
  using set_fold_dict_set [of "\<lambda>(k, v). (strip k, map_option strip v)" "fst dr" "[]"] by simp

lemma cleaned_row_keys:
  "fst ` set (cleaned_row (DictReader_row header r)) \<subseteq> set (map strip header)"
proof
  fix k assume "k \<in> fst ` set (cleaned_row (DictReader_row header r))"
  then obtain v where "(k, v) \<in> set (cleaned_row (DictReader_row header r))" by auto
  with cleaned_row_entries [of "DictReader_row header r"]
  obtain k0 v0 where "(k0, v0) \<in> set (fst (DictReader_row header r))" "k = strip k0"
    by auto
  moreover then have "k0 \<in> set header"
    using DictReader_row_keys [of header r] by force
  ultimately show "k \<in> set (map strip header)" by simp
qed

lemma cleaned_row_values:
  assumes "v \<in> snd ` set (cleaned_row dr)"
  shows "v = None \<or> (\<exists>s. v = Some s \<and> trimmed s)"
proof -
  from assms obtain k where "(k, v) \<in> set (cleaned_row dr)" by auto
  with cleaned_row_entries [of dr] obtain v0 where "v = map_option strip v0" by auto
  then show ?thesis by (cases v0) (simp_all add: strip_trimmed)
qed

lemma zip_some_keys: "map fst (map (\<lambda>(k, v). (k, Some v)) (zip header r)) = take (length r) header"
proof -
  have "map fst (map (\<lambda>(k, v). (k, Some v)) zs) = map fst zs" for zs :: "('a \<times> 'b) list"
    by (induction zs) auto
  then have "map fst (map (\<lambda>(k, v). (k, Some v)) (zip header r)) = take (min (length header) (length r)) header"
    by (simp only: map_fst_zip_take)
  also have "\<dots> = take (length r) header"
    by (simp add: min_def)
  finally show ?thesis .
qed

lemma distinct_strip: "distinct (map strip header) \<Longrightarrow> distinct header"
  by (simp add: distinct_map)

lemma DictReader_row_distinct:
  assumes "distinct header"
  shows "fst (DictReader_row header r) =
           map (\<lambda>(k, v). (k, Some v)) (zip header r) @ map (\<lambda>k. (k, None)) (drop (length r) header)"
proof -
  let ?z = "map (\<lambda>(k, v). (k, Some v)) (zip header r)"
  have kz: "map fst ?z = take (length r) header"
    by (rule zip_some_keys)
  have "distinct (map fst ([] :: (string \<times> pystr) list) @ map (\<lambda>x. fst (case x of (k, v) \<Rightarrow> (k, Some v))) (zip header r))"
    using assms kz by (simp add: comp_def case_prod_beta)
  then have d: "fold (\<lambda>(k, v) d. dict_set k (Some v) d) (zip header r) [] = ?z"
    unfolding zip_fold_eq by (simp add: fold_dict_set_fresh)
  have "distinct (map fst ?z @ map (\<lambda>x. fst (x, None :: pystr)) (drop (length r) header))"
    unfolding kz using assms by simp
  then have e: "fold (\<lambda>key d. dict_set key None d) (drop (length r) header) ?z
      = ?z @ map (\<lambda>k. (k, None)) (drop (length r) header)"
    using fold_dict_set_fresh [of ?z "\<lambda>k. (k, None)" "drop (length r) header"] by simp
  show ?thesis
    by (simp add: DictReader_row_def Let_def d e)
qed

lemma DictReader_row_distinct_keys:
  assumes "distinct header"
  shows "map fst (fst (DictReader_row header r)) = header"
proof -
  have kz: "map fst (map (\<lambda>(k, v). (k, Some v)) (zip header r)) = take (length r) header"
    by (rule zip_some_keys)
  show ?thesis
    unfolding DictReader_row_distinct [OF assms] map_append kz by (simp add: comp_def)
qed

lemma DictReader_row_cell:
  assumes "distinct header" "j < length header"
  shows "(header ! j, if j < length r then Some (r ! j) else None) \<in> set (fst (DictReader_row header r))"
proof (cases "j < length r")
  case True
  with assms(2) have "j < length (zip header r)" by simp
  then have "zip header r ! j \<in> set (zip header r)" by (rule nth_mem)
  with True assms(2) have "(header ! j, r ! j) \<in> set (zip header r)" by simp
  then have "(header ! j, Some (r ! j)) \<in> (\<lambda>(k, v). (k, Some v)) ` set (zip header r)"
    by force
  with True show ?thesis
    by (simp add: DictReader_row_distinct [OF assms(1)])
next
  case False
  with assms(2) have lt: "j - length r < length (drop (length r) header)" by simp
  from False assms(2) have "drop (length r) header ! (j - length r) = header ! j" by simp
  with nth_mem [OF lt] have "header ! j \<in> set (drop (length r) header)" by simp
  with False show ?thesis
    by (simp add: DictReader_row_distinct [OF assms(1)])
qed

lemma cleaned_row_distinct:
  assumes "distinct (map strip header)"
  shows "cleaned_row (DictReader_row header r) =
           map (\<lambda>(k, v). (strip k, map_option strip v)) (fst (DictReader_row header r))"
proof -
  from assms have dh: "distinct header" by (rule distinct_strip)
  have "map (\<lambda>x. fst (case x of (k, v) \<Rightarrow> (strip k, map_option strip v))) (fst (DictReader_row header r))
      = map strip (map fst (fst (DictReader_row header r)))"
    by (simp add: comp_def case_prod_beta)
  also have "\<dots> = map strip header"
    by (simp only: DictReader_row_distinct_keys [OF dh])
  finally have "distinct (map fst ([] :: row) @
      map (\<lambda>x. fst (case x of (k, v) \<Rightarrow> (strip k, map_option strip v))) (fst (DictReader_row header r)))"
    using assms by simp
  then show ?thesis
    unfolding cleaned_row_def clean_fold_eq by (simp add: fold_dict_set_fresh)
qed

lemma cleaned_row_cell:
  assumes "distinct (map strip header)" "j < length header"
  shows "map_of (cleaned_row (DictReader_row header r)) (map strip header ! j)
           = Some (if j < length r then Some (strip (r ! j)) else None)"
proof -
  from assms(1) have dh: "distinct header" by (rule distinct_strip)
  let ?c = "cleaned_row (DictReader_row header r)"
  have c: "?c = map (\<lambda>(k, v). (strip k, map_option strip v)) (fst (DictReader_row header r))"
    using assms(1) by (rule cleaned_row_distinct)
  have "map fst ?c = map strip (map fst (fst (DictReader_row header r)))"
    unfolding c by (simp add: comp_def case_prod_beta)
  then have keys: "map fst ?c = map strip header"
    by (simp only: DictReader_row_distinct_keys [OF dh])
  have "(header ! j, if j < length r then Some (r ! j) else None) \<in> set (fst (DictReader_row header r))"
    using dh assms(2) by (rule DictReader_row_cell)
  then have "(\<lambda>(k, v). (strip k, map_option strip v)) (header ! j, if j < length r then Some (r ! j) else None) \<in> set ?c"
    unfolding c set_map by (rule imageI)
  then have "(strip (header ! j), if j < length r then Some (strip (r ! j)) else None) \<in> set ?c"
    by (simp split: if_splits)
  moreover have "distinct (map fst ?c)"
    unfolding keys using assms(1) .
  ultimately have "map_of ?c (strip (header ! j)) = Some (if j < length r then Some (strip (r ! j)) else None)"
    by simp
  with assms(2) show ?thesis by simp
qed

text \<open>
  Claim C7 as stated fails: a file whose first line is blank and whose second line is
  \<open>Name\<close> is not loaded with the header \<open>Name\<close>; the reader reports the empty record of
  the blank line as the field names, and the load fails.
\<close>

theorem header_row_counterexample:
  "load_csv ascii_lib ''AllValues.csv'' (bytes_of ''\<newline>Name\<newline>Alpha\<newline>'')
     = Inl (ValueError ''AllValues.csv has no header row.'')"
  by code_simp

lemma read_table_Caught_iff: "read_table path rd = Caught \<longleftrightarrow> undecodable rd"
  by (cases rd)
     (auto simp: read_table_def undecodable_def no_header_def
           split: list.splits read_end.splits csv_end.splits)

lemma read_table_ValueError_iff:
  "read_table path rd = Raises (ValueError (path @ '' has no header row.'')) \<longleftrightarrow> no_header rd"
  by (cases rd)
     (auto simp: read_table_def no_header_def split: list.splits read_end.splits csv_end.splits)

lemma load_loop_first:
  assumes "\<forall>e \<in> set pre. read_table path (read_records lib e content) = Caught"
    and "read_table path (read_records lib encoding content) \<noteq> Caught"
  shows "load_loop lib path content (pre @ encoding # suf) last_error =
           (case read_table path (read_records lib encoding content) of
              Returns t \<Rightarrow> Inr t | Raises e \<Rightarrow> Inl e
            | Caught \<Rightarrow> load_loop lib path content suf (Some encoding))"
  using assms(1)
proof (induction pre arbitrary: last_error)
  case Nil
  then show ?case by simp
next
  case (Cons a pre)
  then show ?case by simp
qed

lemma load_loop_Inl:
  "load_loop lib path content encodings last_error = Inl (ValueError m) \<Longrightarrow>
     \<exists>pre encoding suf. encodings = pre @ encoding # suf
        \<and> (\<forall>e \<in> set pre. read_table path (read_records lib e content) = Caught)
        \<and> read_table path (read_records lib encoding content) = Raises (ValueError m)"
proof (induction encodings arbitrary: last_error)
  case Nil
  then show ?case by simp
next
  case (Cons encoding encodings)
  show ?case
  proof (cases "read_table path (read_records lib encoding content)")
    case (Returns t)
    with Cons.prems show ?thesis by simp
  next
    case (Raises e)
    with Cons.prems have "e = ValueError m" by simp
    with Raises have "encoding # encodings = [] @ encoding # encodings
        \<and> (\<forall>e \<in> set []. read_table path (read_records lib e content) = Caught)
        \<and> read_table path (read_records lib encoding content) = Raises (ValueError m)"
      by simp
    then show ?thesis by blast
  next
    case Caught
    with Cons.prems have "load_loop lib path content encodings (Some encoding) = Inl (ValueError m)" by simp
    then obtain pre enc suf where h: "encodings = pre @ enc # suf"
        "\<forall>e \<in> set pre. read_table path (read_records lib e content) = Caught"
        "read_table path (read_records lib enc content) = Raises (ValueError m)"
      using Cons.IH by blast
    with Caught have "encoding # encodings = (encoding # pre) @ enc # suf
        \<and> (\<forall>e \<in> set (encoding # pre). read_table path (read_records lib e content) = Caught)
        \<and> read_table path (read_records lib enc content) = Raises (ValueError m)"
      by simp
    then show ?thesis by blast
  qed
qed

lemma load_csv_Inr_first:
  assumes "load_csv lib path content = Inr (fieldnames, rows)"
  shows "\<exists>pre encoding suf header body. [Utf_8_sig, Cp1252, Latin_1] = pre @ encoding # suf
           \<and> (\<forall>e \<in> set pre. undecodable (read_records lib e content))
           \<and> read_records lib encoding content = (header # body, Reader EndOfFile)
           \<and> header \<noteq> [] \<and> fieldnames = map strip header
           \<and> (\<forall>f \<in> set fieldnames. trimmed f)"
proof -
  from assms have "load_loop lib path content [Utf_8_sig, Cp1252, Latin_1] None = Inr (fieldnames, rows)"
    by (simp only: load_csv_def)
  from load_loop_Inr [OF this] obtain pre encoding suf where
    e: "[Utf_8_sig, Cp1252, Latin_1] = pre @ encoding # suf"
    and c: "\<forall>e \<in> set pre. read_table path (read_records lib e content) = Caught"
    and r: "read_table path (read_records lib encoding content) = Returns (fieldnames, rows)"
    by (elim exE conjE)
  from r obtain header body where
    h: "read_records lib encoding content = (header # body, Reader EndOfFile)" "header \<noteq> []"
       "fieldnames = map strip header"
    by (auto simp: read_table_Returns)
  from h(3) have t: "\<forall>f \<in> set fieldnames. trimmed f"
    by (auto simp: strip_trimmed)
  from c have u: "\<forall>e \<in> set pre. undecodable (read_records lib e content)"
    by (simp add: read_table_Caught_iff)
  from e u h t have all: "[Utf_8_sig, Cp1252, Latin_1] = pre @ encoding # suf
           \<and> (\<forall>e \<in> set pre. undecodable (read_records lib e content))
           \<and> read_records lib encoding content = (header # body, Reader EndOfFile)
           \<and> header \<noteq> [] \<and> fieldnames = map strip header
           \<and> (\<forall>f \<in> set fieldnames. trimmed f)"
    by (intro conjI)
  show ?thesis
    by (rule exI [of _ pre], rule exI [of _ encoding], rule exI [of _ suf],
        rule exI [of _ header], rule exI [of _ body]) (rule all)
qed

lemma load_csv_ValueError_iff:
  "load_csv lib path content = Inl (ValueError m) \<longleftrightarrow>
     (\<exists>pre encoding suf. [Utf_8_sig, Cp1252, Latin_1] = pre @ encoding # suf
        \<and> (\<forall>e \<in> set pre. read_table path (read_records lib e content) = Caught)
        \<and> read_table path (read_records lib encoding content) = Raises (ValueError m))"
proof
  assume "load_csv lib path content = Inl (ValueError m)"
  then have "load_loop lib path content [Utf_8_sig, Cp1252, Latin_1] None = Inl (ValueError m)"
    by (simp only: load_csv_def)
  then show "\<exists>pre encoding suf. [Utf_8_sig, Cp1252, Latin_1] = pre @ encoding # suf
        \<and> (\<forall>e \<in> set pre. read_table path (read_records lib e content) = Caught)
        \<and> read_table path (read_records lib encoding content) = Raises (ValueError m)"
    by (rule load_loop_Inl)
next
  assume "\<exists>pre encoding suf. [Utf_8_sig, Cp1252, Latin_1] = pre @ encoding # suf
        \<and> (\<forall>e \<in> set pre. read_table path (read_records lib e content) = Caught)
        \<and> read_table path (read_records lib encoding content) = Raises (ValueError m)"
  then obtain pre encoding suf where
    e: "[Utf_8_sig, Cp1252, Latin_1] = pre @ encoding # suf"
    and c: "\<forall>e \<in> set pre. read_table path (read_records lib e content) = Caught"
    and r: "read_table path (read_records lib encoding content) = Raises (ValueError m)"
    by (elim exE conjE)
  from r have "read_table path (read_records lib encoding content) \<noteq> Caught" by simp
  with c have "load_loop lib path content (pre @ encoding # suf) None =
           (case read_table path (read_records lib encoding content) of
              Returns t \<Rightarrow> Inr t | Raises e \<Rightarrow> Inl e
            | Caught \<Rightarrow> load_loop lib path content suf (Some encoding))"
    by (rule load_loop_first)
  with r have "load_loop lib path content (pre @ encoding # suf) None = Inl (ValueError m)"
    by simp
  then show "load_csv lib path content = Inl (ValueError m)"
    by (simp only: load_csv_def e)
qed

lemma load_csv_no_header_iff:
  "load_csv lib path content = Inl (ValueError (path @ '' has no header row.'')) \<longleftrightarrow>
     (\<exists>pre encoding suf. [Utf_8_sig, Cp1252, Latin_1] = pre @ encoding # suf
        \<and> (\<forall>e \<in> set pre. undecodable (read_records lib e content))
        \<and> no_header (read_records lib encoding content))"
  by (simp only: load_csv_ValueError_iff read_table_Caught_iff read_table_ValueError_iff)

text \<open>
  Claim C7, amended. The header row is the first record of the file, blank or not. A
  table the loader returns has as its header the first record read under the first
  encoding that does not fail to decode, that record not empty, each entry trimmed of
  surrounding whitespace. The load fails with the \<open>ValueError\<close> of the missing header row
  exactly when, under the first encoding that is not abandoned for a decoding failure, the
  reader reports no field names (the file is empty or its first line is blank); so it
  fails already when this happens under utf-8-sig, whatever the later encodings would read.
\<close>

theorem load_csv_header:
  "(load_csv lib path content = Inr (fieldnames, rows) \<longrightarrow>
      (\<exists>pre encoding suf header body. [Utf_8_sig, Cp1252, Latin_1] = pre @ encoding # suf
          \<and> (\<forall>e \<in> set pre. undecodable (read_records lib e content))
          \<and> read_records lib encoding content = (header # body, Reader EndOfFile)
          \<and> header \<noteq> [] \<and> fieldnames = map strip header
          \<and> (\<forall>f \<in> set fieldnames. trimmed f)))
   \<and> (load_csv lib path content = Inl (ValueError (path @ '' has no header row.'')) \<longleftrightarrow>
        (\<exists>pre encoding suf. [Utf_8_sig, Cp1252, Latin_1] = pre @ encoding # suf
            \<and> (\<forall>e \<in> set pre. undecodable (read_records lib e content))
            \<and> no_header (read_records lib encoding content)))
   \<and> (no_header (read_records lib Utf_8_sig content)
        \<longrightarrow> load_csv lib path content = Inl (ValueError (path @ '' has no header row.'')))"
proof (intro conjI impI)
  assume "load_csv lib path content = Inr (fieldnames, rows)"
  then show "\<exists>pre encoding suf header body. [Utf_8_sig, Cp1252, Latin_1] = pre @ encoding # suf
          \<and> (\<forall>e \<in> set pre. undecodable (read_records lib e content))
          \<and> read_records lib encoding content = (header # body, Reader EndOfFile)
          \<and> header \<noteq> [] \<and> fieldnames = map strip header
          \<and> (\<forall>f \<in> set fieldnames. trimmed f)"
    by (rule load_csv_Inr_first)
next
  show "load_csv lib path content = Inl (ValueError (path @ '' has no header row.'')) \<longleftrightarrow>
        (\<exists>pre encoding suf. [Utf_8_sig, Cp1252, Latin_1] = pre @ encoding # suf
            \<and> (\<forall>e \<in> set pre. undecodable (read_records lib e content))
            \<and> no_header (read_records lib encoding content))"
    by (rule load_csv_no_header_iff)
next
  assume n: "no_header (read_records lib Utf_8_sig content)"
  have "[Utf_8_sig, Cp1252, Latin_1] = [] @ Utf_8_sig # [Cp1252, Latin_1]
        \<and> (\<forall>e \<in> set []. undecodable (read_records lib e content))
        \<and> no_header (read_records lib Utf_8_sig content)"
    using n by simp
  then have "\<exists>pre encoding suf. [Utf_8_sig, Cp1252, Latin_1] = pre @ encoding # suf
        \<and> (\<forall>e \<in> set pre. undecodable (read_records lib e content))
        \<and> no_header (read_records lib encoding content)"
    by blast
  then show "load_csv lib path content = Inl (ValueError (path @ '' has no header row.''))"
    by (simp only: load_csv_no_header_iff)
qed

text \<open>
  A file whose header \<open>Name\<close> is written with spaces around it; a file that starts with the
  byte-order mark and a blank line, which fails under utf-8-sig although the other two
  encodings would read the mark as a header; and a file that starts with a blank line and
  holds a byte that is not UTF-8, which fails under cp1252 after utf-8-sig is abandoned.
\<close>

theorem load_csv_header_witness:
  "load_csv ascii_lib ''Available.csv'' (bytes_of '' Name ,Points\<newline>Alpha,10'')
      = Inr ([''Name'', ''Points''], [[(''Name'', Some ''Alpha''), (''Points'', Some ''10'')]])
   \<and> (\<exists>pre encoding suf header body. [Utf_8_sig, Cp1252, Latin_1] = pre @ encoding # suf
          \<and> (\<forall>e \<in> set pre. undecodable (read_records ascii_lib e (bytes_of '' Name ,Points\<newline>Alpha,10'')))
          \<and> read_records ascii_lib encoding (bytes_of '' Name ,Points\<newline>Alpha,10'') = (header # body, Reader EndOfFile)
          \<and> header \<noteq> [] \<and> [''Name'', ''Points''] = map strip header
          \<and> (\<forall>f \<in> set [''Name'', ''Points'']. trimmed f))
   \<and> no_header (read_records ascii_lib Utf_8_sig ([0xEF, 0xBB, 0xBF] @ bytes_of ''\<newline>Name\<newline>Alpha\<newline>''))
   \<and> load_csv ascii_lib ''Available.csv'' ([0xEF, 0xBB, 0xBF] @ bytes_of ''\<newline>Name\<newline>Alpha\<newline>'')
        = Inl (ValueError ''Available.csv has no header row.'')
   \<and> undecodable (read_records ascii_lib Utf_8_sig ([0x0A, 0xFF] @ bytes_of ''Name\<newline>''))
   \<and> no_header (read_records ascii_lib Cp1252 ([0x0A, 0xFF] @ bytes_of ''Name\<newline>''))
   \<and> load_csv ascii_lib ''Available.csv'' ([0x0A, 0xFF] @ bytes_of ''Name\<newline>'')
        = Inl (ValueError ''Available.csv has no header row.'')"
proof -
  let ?a = "bytes_of '' Name ,Points\<newline>Alpha,10''"
  let ?b = "[0xEF, 0xBB, 0xBF] @ bytes_of ''\<newline>Name\<newline>Alpha\<newline>''"
  let ?c = "[0x0A, 0xFF] @ bytes_of ''Name\<newline>''"
  have loaded: "load_csv ascii_lib ''Available.csv'' ?a
      = Inr ([''Name'', ''Points''], [[(''Name'', Some ''Alpha''), (''Points'', Some ''10'')]])"
    by code_simp
  have nb: "no_header (read_records ascii_lib Utf_8_sig ?b)"
    by code_simp
  have uc: "undecodable (read_records ascii_lib Utf_8_sig ?c)"
    by code_simp
  have nc: "no_header (read_records ascii_lib Cp1252 ?c)"
    by code_simp
  note wa = load_csv_header [of ascii_lib "''Available.csv''" ?a
      "[''Name'', ''Points'']" "[[(''Name'', Some ''Alpha''), (''Points'', Some ''10'')]]"]
  note wb = load_csv_header [of ascii_lib "''Available.csv''" ?b]
  note wc = load_csv_header [of ascii_lib "''Available.csv''" ?c]
  from wa [THEN conjunct1] loaded
  have a: "\<exists>pre encoding suf header body. [Utf_8_sig, Cp1252, Latin_1] = pre @ encoding # suf
          \<and> (\<forall>e \<in> set pre. undecodable (read_records ascii_lib e ?a))
          \<and> read_records ascii_lib encoding ?a = (header # body, Reader EndOfFile)
          \<and> header \<noteq> [] \<and> [''Name'', ''Points''] = map strip header
          \<and> (\<forall>f \<in> set [''Name'', ''Points'']. trimmed f)"
    by (rule mp)
  from wb [THEN conjunct2, THEN conjunct2] nb
  have "load_csv ascii_lib ''Available.csv'' ?b = Inl (ValueError (''Available.csv'' @ '' has no header row.''))"
    by (rule mp)
  then have b: "load_csv ascii_lib ''Available.csv'' ?b = Inl (ValueError ''Available.csv has no header row.'')"
    by simp
  from uc have pre: "\<forall>e \<in> set [Utf_8_sig]. undecodable (read_records ascii_lib e ?c)"
    by simp
  have split: "[Utf_8_sig, Cp1252, Latin_1] = [Utf_8_sig] @ Cp1252 # [Latin_1]"
    by simp
  from split pre nc have all: "[Utf_8_sig, Cp1252, Latin_1] = [Utf_8_sig] @ Cp1252 # [Latin_1]
        \<and> (\<forall>e \<in> set [Utf_8_sig]. undecodable (read_records ascii_lib e ?c))
        \<and> no_header (read_records ascii_lib Cp1252 ?c)"
    by (intro conjI)
  have ex: "\<exists>pre encoding suf. [Utf_8_sig, Cp1252, Latin_1] = pre @ encoding # suf
        \<and> (\<forall>e \<in> set pre. undecodable (read_records ascii_lib e ?c))
        \<and> no_header (read_records ascii_lib encoding ?c)"
    by (rule exI [of _ "[Utf_8_sig]"], rule exI [of _ Cp1252], rule exI [of _ "[Latin_1]"]) (rule all)
  from wc [THEN conjunct2, THEN conjunct1] ex
  have "load_csv ascii_lib ''Available.csv'' ?c = Inl (ValueError (''Available.csv'' @ '' has no header row.''))"
    by (rule iffD2)
  then have c: "load_csv ascii_lib ''Available.csv'' ?c = Inl (ValueError ''Available.csv has no header row.'')"
    by simp
  from loaded a nb b uc nc c show ?thesis by (intro conjI)
qed

text \<open>
  Claim C8 as stated fails: in a data row shorter than the header, the missing cell is
  stored as \<open>None\<close>, not as the empty string.
\<close>

theorem missing_cell_counterexample:
  "load_csv ascii_lib ''AllValues.csv'' (bytes_of ''Name,Points\<newline>Alpha\<newline>'')
     = Inr ([''Name'', ''Points''], [[(''Name'', Some ''Alpha''), (''Points'', None)]])"
  by code_simp

text \<open>
  Claim C8, amended. In every table the loader returns, the keys of each row are among the
  trimmed header names and every stored value is \<open>None\<close> or a string trimmed of leading and
  trailing whitespace. The rows are the records after the first that are not empty, and
  when the trimmed header names are distinct each row maps every header name to the
  trimmed cell at its position, or to \<open>None\<close> when the record is too short to have one.
\<close>

theorem loader_table_invariant:
  assumes "load_csv lib path content = Inr (fieldnames, rows)"
  shows "(\<forall>row \<in> set rows. fst ` set row \<subseteq> set fieldnames
            \<and> (\<forall>v \<in> snd ` set row. v = None \<or> (\<exists>s. v = Some s \<and> trimmed s)))
       \<and> (\<exists>encoding header body.
             read_records lib encoding content = (header # body, Reader EndOfFile)
           \<and> fieldnames = map strip header
           \<and> rows = map (\<lambda>r. cleaned_row (DictReader_row header r)) (filter (\<lambda>r. r \<noteq> []) body)
           \<and> (distinct fieldnames \<longrightarrow>
                (\<forall>r j. j < length header \<longrightarrow>
                   map_of (cleaned_row (DictReader_row header r)) (fieldnames ! j)
                     = Some (if j < length r then Some (strip (r ! j)) else None))))"
proof -
  from load_csv_Inr [OF assms] obtain encoding header body where
    rd: "read_records lib encoding content = (header # body, Reader EndOfFile)"
    and f: "fieldnames = map strip header"
    and r: "rows = map cleaned_row (DictReader_rows header body)"
    by blast
  have r': "rows = map (\<lambda>r. cleaned_row (DictReader_row header r)) (filter (\<lambda>r. r \<noteq> []) body)"
    unfolding r DictReader_rows_def by simp
  have inv: "\<forall>row \<in> set rows. fst ` set row \<subseteq> set fieldnames
            \<and> (\<forall>v \<in> snd ` set row. v = None \<or> (\<exists>s. v = Some s \<and> trimmed s))"
  proof
    fix row assume "row \<in> set rows"
    then obtain rec where row: "row = cleaned_row (DictReader_row header rec)"
      unfolding r' by auto
    have k: "fst ` set row \<subseteq> set fieldnames"
      unfolding row f by (rule cleaned_row_keys)
    have v: "\<forall>v \<in> snd ` set row. v = None \<or> (\<exists>s. v = Some s \<and> trimmed s)"
    proof
      fix v assume "v \<in> snd ` set row"
      then have "v \<in> snd ` set (cleaned_row (DictReader_row header rec))"
        by (simp only: row)
      then show "v = None \<or> (\<exists>s. v = Some s \<and> trimmed s)"
        by (rule cleaned_row_values)
    qed
    from k v show "fst ` set row \<subseteq> set fieldnames
            \<and> (\<forall>v \<in> snd ` set row. v = None \<or> (\<exists>s. v = Some s \<and> trimmed s))" ..
  qed
  have cells: "distinct fieldnames \<longrightarrow>
                (\<forall>r j. j < length header \<longrightarrow>
                   map_of (cleaned_row (DictReader_row header r)) (fieldnames ! j)
                     = Some (if j < length r then Some (strip (r ! j)) else None))"
  proof (intro impI allI)
    fix r j
    assume "distinct fieldnames" and j: "j < length header"
    then have d: "distinct (map strip header)" by (simp only: f)
    from cleaned_row_cell [OF d j]
    show "map_of (cleaned_row (DictReader_row header r)) (fieldnames ! j)
                     = Some (if j < length r then Some (strip (r ! j)) else None)"
      by (simp only: f)
  qed
  from rd f r' cells have "read_records lib encoding content = (header # body, Reader EndOfFile)
           \<and> fieldnames = map strip header
           \<and> rows = map (\<lambda>r. cleaned_row (DictReader_row header r)) (filter (\<lambda>r. r \<noteq> []) body)
           \<and> (distinct fieldnames \<longrightarrow>
                (\<forall>r j. j < length header \<longrightarrow>
                   map_of (cleaned_row (DictReader_row header r)) (fieldnames ! j)
                     = Some (if j < length r then Some (strip (r ! j)) else None)))"
    by (intro conjI)
  then have "\<exists>body.
             read_records lib encoding content = (header # body, Reader EndOfFile)
           \<and> fieldnames = map strip header
           \<and> rows = map (\<lambda>r. cleaned_row (DictReader_row header r)) (filter (\<lambda>r. r \<noteq> []) body)
           \<and> (distinct fieldnames \<longrightarrow>
                (\<forall>r j. j < length header \<longrightarrow>
                   map_of (cleaned_row (DictReader_row header r)) (fieldnames ! j)
                     = Some (if j < length r then Some (strip (r ! j)) else None)))"
    by (rule exI)
  then have "\<exists>header body.
             read_records lib encoding content = (header # body, Reader EndOfFile)
           \<and> fieldnames = map strip header
           \<and> rows = map (\<lambda>r. cleaned_row (DictReader_row header r)) (filter (\<lambda>r. r \<noteq> []) body)
           \<and> (distinct fieldnames \<longrightarrow>
                (\<forall>r j. j < length header \<longrightarrow>
                   map_of (cleaned_row (DictReader_row header r)) (fieldnames ! j)
                     = Some (if j < length r then Some (strip (r ! j)) else None)))"
    by (rule exI)
  then have "\<exists>encoding header body.
             read_records lib encoding content = (header # body, Reader EndOfFile)
           \<and> fieldnames = map strip header
           \<and> rows = map (\<lambda>r. cleaned_row (DictReader_row header r)) (filter (\<lambda>r. r \<noteq> []) body)
           \<and> (distinct fieldnames \<longrightarrow>
                (\<forall>r j. j < length header \<longrightarrow>
                   map_of (cleaned_row (DictReader_row header r)) (fieldnames ! j)
                     = Some (if j < length r then Some (strip (r ! j)) else None)))"
    by (rule exI)
  with inv show ?thesis ..
qed

text \<open>
  A file with spaces around its cells and a last row that has no points cell.
\<close>

theorem loader_table_invariant_witness:
  "load_csv ascii_lib ''AllValues.csv'' (bytes_of ''Name, Points \<newline>Alpha, 10 \<newline>Beta'')
      = Inr ([''Name'', ''Points''],
             [[(''Name'', Some ''Alpha''), (''Points'', Some ''10'')],
              [(''Name'', Some ''Beta''), (''Points'', None)]])
   \<and> fst ` set [(''Name'', Some ''Beta''), (''Points'', None)] \<subseteq> set [''Name'', ''Points'']
   \<and> trimmed ''Beta''
   \<and> (\<exists>header. [''Name'', ''Points''] = map strip header
         \<and> map_of (cleaned_row (DictReader_row header [''Beta''])) ''Points'' = Some None)"
proof -
  let ?F = "[''Name'', ''Points'']"
  let ?row = "[(''Name'', Some ''Beta''), (''Points'', None)]"
  let ?R = "[[(''Name'', Some ''Alpha''), (''Points'', Some ''10'')], ?row]"
  have loaded: "load_csv ascii_lib ''AllValues.csv'' (bytes_of ''Name, Points \<newline>Alpha, 10 \<newline>Beta'')
      = Inr (?F, ?R)"
    by code_simp
  note w = loader_table_invariant [OF loaded]
  from w have inv: "\<forall>row \<in> set ?R. fst ` set row \<subseteq> set ?F
         \<and> (\<forall>v \<in> snd ` set row. v = None \<or> (\<exists>s. v = Some s \<and> trimmed s))"
    by (rule conjunct1)
  have "?row \<in> set ?R" by simp
  with inv have r: "fst ` set ?row \<subseteq> set ?F
         \<and> (\<forall>v \<in> snd ` set ?row. v = None \<or> (\<exists>s. v = Some s \<and> trimmed s))"
    by (rule bspec)
  then have keys: "fst ` set ?row \<subseteq> set ?F" by (rule conjunct1)
  from r have vals: "\<forall>v \<in> snd ` set ?row. v = None \<or> (\<exists>s. v = Some s \<and> trimmed s)"
    by (rule conjunct2)
  have "Some ''Beta'' \<in> snd ` set ?row" by force
  with vals have "Some ''Beta'' = None \<or> (\<exists>s. Some ''Beta'' = Some s \<and> trimmed s)"
    by (rule bspec)
  then have tr: "trimmed ''Beta''" by auto
  from w have "\<exists>encoding header body.
             read_records ascii_lib encoding (bytes_of ''Name, Points \<newline>Alpha, 10 \<newline>Beta'')
               = (header # body, Reader EndOfFile)
           \<and> ?F = map strip header
           \<and> ?R = map (\<lambda>r. cleaned_row (DictReader_row header r)) (filter (\<lambda>r. r \<noteq> []) body)
           \<and> (distinct ?F \<longrightarrow>
                (\<forall>r j. j < length header \<longrightarrow>
                   map_of (cleaned_row (DictReader_row header r)) (?F ! j)
                     = Some (if j < length r then Some (strip (r ! j)) else None)))"
    by (rule conjunct2)
  then obtain encoding header body where all: "read_records ascii_lib encoding (bytes_of ''Name, Points \<newline>Alpha, 10 \<newline>Beta'')
               = (header # body, Reader EndOfFile)
           \<and> ?F = map strip header
           \<and> ?R = map (\<lambda>r. cleaned_row (DictReader_row header r)) (filter (\<lambda>r. r \<noteq> []) body)
           \<and> (distinct ?F \<longrightarrow>
                (\<forall>r j. j < length header \<longrightarrow>
                   map_of (cleaned_row (DictReader_row header r)) (?F ! j)
                     = Some (if j < length r then Some (strip (r ! j)) else None)))"
    by (elim exE)
  from all have f: "?F = map strip header"
    by (elim conjE)
  from all have cells: "distinct ?F \<longrightarrow>
                (\<forall>r j. j < length header \<longrightarrow>
                   map_of (cleaned_row (DictReader_row header r)) (?F ! j)
                     = Some (if j < length r then Some (strip (r ! j)) else None))"
    by (elim conjE)
  have d: "distinct ?F" by simp
  from arg_cong [where f = length, OF f] have j: "1 < length header" by simp
  from cells d have c2: "\<forall>r j. j < length header \<longrightarrow>
                   map_of (cleaned_row (DictReader_row header r)) (?F ! j)
                     = Some (if j < length r then Some (strip (r ! j)) else None)"
    by (rule mp)
  from c2 [rule_format, OF j, of "[''Beta'']"]
  have "map_of (cleaned_row (DictReader_row header [''Beta''])) ''Points'' = Some None"
    by simp
  with f have both: "?F = map strip header
         \<and> map_of (cleaned_row (DictReader_row header [''Beta''])) ''Points'' = Some None"
    by (rule conjI)
  have ex: "\<exists>header. ?F = map strip header
         \<and> map_of (cleaned_row (DictReader_row header [''Beta''])) ''Points'' = Some None"
    by (rule exI [of _ header]) (rule both)
  from loaded keys tr ex show ?thesis by (intro conjI)
qed

section \<open>Properties of the run\<close>

text \<open>
  Claim C9. When loading either file fails, or the name column of either table or the
  points column of the value-source table is not found, the run ends with an error and
  without any effect: the output file is not written and nothing is printed.
\<close>

theorem failure_before_output:
  assumes "(\<exists>e. load_csv lib ALL_VALUES_PATH all_content = Inl e)
         \<or> (\<exists>e. load_csv lib AVAILABLE_PATH available_content = Inl e)
         \<or> (\<exists>fs rs e. load_csv lib ALL_VALUES_PATH all_content = Inr (fs, rs)
               \<and> (find_name_column fs ALL_VALUES_PATH = Inl e
                    \<or> find_points_column (float_parses lib) fs rs = Inl e))
         \<or> (\<exists>fs rs e. load_csv lib AVAILABLE_PATH available_content = Inr (fs, rs)
               \<and> find_name_column fs AVAILABLE_PATH = Inl e)"
  shows "fst (main lib all_content available_content) = []
       \<and> snd (main lib all_content available_content) \<noteq> None"
proof (cases "load_csv lib ALL_VALUES_PATH all_content")
  case (Inl e)
  then show ?thesis by (simp add: main_def)
next
  case all: (Inr t)
  obtain all_fields all_rows where t: "t = (all_fields, all_rows)" by (cases t)
  show ?thesis
  proof (cases "load_csv lib AVAILABLE_PATH available_content")
    case (Inl e)
    with all t show ?thesis by (simp add: main_def)
  next
    case av: (Inr u)
    obtain available_fields available_rows where u: "u = (available_fields, available_rows)" by (cases u)
    show ?thesis
    proof (cases "find_name_column all_fields ALL_VALUES_PATH")
      case (Inl e)
      with all t av u show ?thesis by (simp add: main_def)
    next
      case n1: (Inr all_name_column)
      show ?thesis
      proof (cases "find_name_column available_fields AVAILABLE_PATH")
        case (Inl e)
        with all t av u n1 show ?thesis by (simp add: main_def)
      next
        case n2: (Inr available_name_column)
        show ?thesis
        proof (cases "find_points_column (float_parses lib) all_fields all_rows")
          case (Inl e)
          with all t av u n1 n2 show ?thesis by (simp add: main_def)
        next
          case (Inr points_column)
          with assms all t av u n1 n2 have False by simp
          then show ?thesis ..
        qed
      qed
    qed
  qed
qed

text \<open>
  A value-source file with the headers \<open>Name\<close> and \<open>Label\<close> and no numeric column.
\<close>

theorem failure_before_output_witness:
  "(\<exists>fs rs e. load_csv ascii_lib ALL_VALUES_PATH (bytes_of ''Name,Label\<newline>Alpha,x'') = Inr (fs, rs)
       \<and> (find_name_column fs ALL_VALUES_PATH = Inl e
            \<or> find_points_column (float_parses ascii_lib) fs rs = Inl e))
   \<and> fst (main ascii_lib (bytes_of ''Name,Label\<newline>Alpha,x'') (bytes_of ''Name\<newline>Alpha'')) = []
   \<and> snd (main ascii_lib (bytes_of ''Name,Label\<newline>Alpha,x'') (bytes_of ''Name\<newline>Alpha'')) \<noteq> None"
proof -
  have l: "load_csv ascii_lib ALL_VALUES_PATH (bytes_of ''Name,Label\<newline>Alpha,x'')
      = Inr ([''Name'', ''Label''], [[(''Name'', Some ''Alpha''), (''Label'', Some ''x'')]])"
    by code_simp
  have p: "find_points_column (float_parses ascii_lib) [''Name'', ''Label'']
       [[(''Name'', Some ''Alpha''), (''Label'', Some ''x'')]]
      = Inl (ValueError ''Could not find a points column in AllValues.csv.'')"
    by code_simp
  from l p have h: "\<exists>fs rs e. load_csv ascii_lib ALL_VALUES_PATH (bytes_of ''Name,Label\<newline>Alpha,x'') = Inr (fs, rs)
       \<and> (find_name_column fs ALL_VALUES_PATH = Inl e
            \<or> find_points_column (float_parses ascii_lib) fs rs = Inl e)"
    by blast
  then have "fst (main ascii_lib (bytes_of ''Name,Label\<newline>Alpha,x'') (bytes_of ''Name\<newline>Alpha'')) = []
   \<and> snd (main ascii_lib (bytes_of ''Name,Label\<newline>Alpha,x'') (bytes_of ''Name\<newline>Alpha'')) \<noteq> None"
    by (intro failure_before_output disjI2 disjI1)
  with h show ?thesis by (rule conjI)
qed

end
